theory Spec2Isabelle
  imports Complex_Main "HOL-Library.Log_Nat"
begin

section \<open>The verify package of go-rest-api\<close>

text \<open>
  A shallow embedding of \<^verbatim>\<open>verify/verify.go\<close>: the request builder
  \<^verbatim>\<open>requestDataForVerify\<close>, the five operations \<^verbatim>\<open>Create\<close>,
  \<^verbatim>\<open>Delete\<close>, \<^verbatim>\<open>Read\<close>, \<^verbatim>\<open>VerifyToken\<close> and
  \<^verbatim>\<open>ReadVerifyEmailMessage\<close>, and the decoder \<^verbatim>\<open>(*Verify).UnmarshalJSON\<close>.
  Go strings are byte strings: \<open>string\<close>. A pointer that may be nil is an \<open>option\<close>.
  A Go function returning \<^verbatim>\<open>(*T, error)\<close> returns \<open>error + T\<close>.
\<close>

subsection \<open>Errors\<close>

text \<open>
  \<^verbatim>\<open>errors.New\<close> and \<^verbatim>\<open>fmt.Errorf\<close> (without \<^verbatim>\<open>%w\<close>) build
  an \<^verbatim>\<open>*errors.errorString\<close> holding the message. The other constructors are the
  errors \<^verbatim>\<open>encoding/json\<close> reports: text that is not JSON, and a JSON value that
  does not fit the Go type it is decoded into (the string is the library's \<open>Value\<close>
  field, a description of the JSON value; \<open>goType\<close> lists the Go types this package
  decodes into).
\<close>

datatype goType = StringType | MapType | Float64Type | StructType

datatype error =
    errorString string
  | SyntaxError
  | UnmarshalTypeError string goType

definition errors_New :: "string \<Rightarrow> error" where
  "errors_New text = errorString text"

subsection \<open>Data\<close>

text \<open>
  \<^verbatim>\<open>Verify\<close>: the two timestamps are \<^verbatim>\<open>*time.Time\<close>; the type \<open>'t\<close>
  stands for \<^verbatim>\<open>time.Time\<close>. \<^verbatim>\<open>Messages\<close> is a Go map, nil when \<open>None\<close>.
\<close>

record 't Verify =
  ID :: string
  HRef :: string
  Reference :: string
  Status :: string
  Messages :: "(string \<rightharpoonup> string) option"
  CreatedDatetime :: "'t option"
  ValidUntilDatetime :: "'t option"
  Recipient :: string

record VerifyMessage =
  ID :: string
  Status :: string

text \<open>
  Go's \<^verbatim>\<open>int\<close> fields are copied, compared with zero and written in decimal
  only, with no arithmetic on them: \<open>int\<close>.
\<close>

record Params =
  Originator :: string
  Reference :: string
  Type :: string
  Template :: string
  DataCoding :: string
  ReportURL :: string
  Voice :: string
  Language :: string
  Timeout :: int
  TokenLength :: int
  Subject :: string

record verifyRequest =
  Recipient :: string
  Originator :: string
  Reference :: string
  Type :: string
  Template :: string
  DataCoding :: string
  ReportURL :: string
  Voice :: string
  Language :: string
  Timeout :: int
  TokenLength :: int
  Subject :: string

text \<open>The zero values \<^verbatim>\<open>&Verify{}\<close> and \<^verbatim>\<open>&VerifyMessage{}\<close>.\<close>

definition zeroVerify :: "'t Verify" where
  "zeroVerify = \<lparr>Verify.ID = '''', HRef = '''', Reference = '''', Status = '''',
     Messages = None, CreatedDatetime = None, ValidUntilDatetime = None,
     Recipient = ''''\<rparr>"

definition zeroVerifyMessage :: VerifyMessage where
  "zeroVerifyMessage = \<lparr>VerifyMessage.ID = '''', Status = ''''\<rparr>"

definition path :: string where
  "path = ''verify''"

definition emailMessagesPath :: string where
  "emailMessagesPath = path @ ''/messages/email''"

definition MethodGet :: string where
  "MethodGet = ''GET''"

definition MethodPost :: string where
  "MethodPost = ''POST''"

definition MethodDelete :: string where
  "MethodDelete = ''DELETE''"

subsection \<open>The request builder\<close>

definition requestDataForVerify :: "string \<Rightarrow> Params option \<Rightarrow> error + verifyRequest" where
  "requestDataForVerify recipient params =
     (if recipient = '''' then Inl (errors_New ''recipient is required'')
      else
        let request = \<lparr>verifyRequest.Recipient = recipient, Originator = '''',
              Reference = '''', Type = '''', Template = '''', DataCoding = '''',
              ReportURL = '''', Voice = '''', Language = '''', Timeout = 0,
              TokenLength = 0, Subject = ''''\<rparr>
        in case params of
             None \<Rightarrow> Inr request
           | Some p \<Rightarrow>
               Inr (request\<lparr>verifyRequest.Originator := Params.Originator p,
                      verifyRequest.Reference := Params.Reference p,
                      verifyRequest.Type := Params.Type p,
                      verifyRequest.Template := Params.Template p,
                      verifyRequest.DataCoding := Params.DataCoding p,
                      verifyRequest.ReportURL := Params.ReportURL p,
                      verifyRequest.Voice := Params.Voice p,
                      verifyRequest.Language := Params.Language p,
                      verifyRequest.Timeout := Params.Timeout p,
                      verifyRequest.TokenLength := Params.TokenLength p,
                      verifyRequest.Subject := Params.Subject p\<rparr>))"

subsection \<open>The wire form of a request\<close>

text \<open>
  The struct tags of \<^verbatim>\<open>verifyRequest\<close> fix the members \<^verbatim>\<open>encoding/json\<close>
  writes: one member per field, in the order of declaration, under the tag's name;
  a field tagged \<^verbatim>\<open>omitempty\<close> is left out when it holds the empty string or
  zero. A member is its name and the Go value written under it; the text the
  library writes for the members follows further down, with \<open>Marshal\<close>.
\<close>

datatype member_value = StringField string | IntField int

definition stringMember :: "string \<Rightarrow> string \<Rightarrow> (string \<times> member_value) list" where
  "stringMember name s = (if s = '''' then [] else [(name, StringField s)])"

definition intMember :: "string \<Rightarrow> int \<Rightarrow> (string \<times> member_value) list" where
  "intMember name i = (if i = 0 then [] else [(name, IntField i)])"

definition members :: "verifyRequest \<Rightarrow> (string \<times> member_value) list" where
  "members r =
     [(''recipient'', StringField (verifyRequest.Recipient r))]
     @ stringMember ''originator'' (verifyRequest.Originator r)
     @ stringMember ''reference'' (verifyRequest.Reference r)
     @ stringMember ''type'' (verifyRequest.Type r)
     @ stringMember ''template'' (verifyRequest.Template r)
     @ stringMember ''dataCoding'' (verifyRequest.DataCoding r)
     @ stringMember ''reportUrl'' (verifyRequest.ReportURL r)
     @ stringMember ''voice'' (verifyRequest.Voice r)
     @ stringMember ''language'' (verifyRequest.Language r)
     @ intMember ''timeout'' (verifyRequest.Timeout r)
     @ intMember ''tokenLength'' (verifyRequest.TokenLength r)
     @ stringMember ''subject'' (verifyRequest.Subject r)"

subsection \<open>The transport collaborator\<close>

text \<open>
  \<^verbatim>\<open>c.Request(v, method, path, data)\<close> belongs to the client the caller supplies.
  Its first argument is an \<^verbatim>\<open>interface{}\<close>; this package passes a
  \<^verbatim>\<open>*Verify\<close>, a \<^verbatim>\<open>*VerifyMessage\<close> or nil, and a
  \<^verbatim>\<open>*verifyRequest\<close> or nil as \<open>data\<close>. The client is a record with one
  component per static type of \<open>v\<close>; a component returns the error of the call
  (\<open>None\<close> is nil) and the value \<open>v\<close> points to when the call is over.
\<close>

record 't Client =
  RequestVerify ::
    "'t Verify \<Rightarrow> string \<Rightarrow> string \<Rightarrow> verifyRequest option \<Rightarrow> error option \<times> 't Verify"
  RequestVerifyMessage ::
    "VerifyMessage \<Rightarrow> string \<Rightarrow> string \<Rightarrow> verifyRequest option
       \<Rightarrow> error option \<times> VerifyMessage"
  RequestNil :: "string \<Rightarrow> string \<Rightarrow> verifyRequest option \<Rightarrow> error option"

text \<open>
  Every operation returns, before its result, the calls of \<^verbatim>\<open>c.Request\<close> it
  made, in order: the HTTP verb, the path and the body of each.
\<close>

record request =
  verb :: string
  resource :: string
  body :: "verifyRequest option"

text \<open>
  One call of \<^verbatim>\<open>c.Request\<close>, for each static type of its target: the record of
  the call, made of the arguments handed to the client, and the client's answer to
  these arguments.
\<close>

definition Request_Verify ::
  "'t Client \<Rightarrow> 't Verify \<Rightarrow> string \<Rightarrow> string \<Rightarrow> verifyRequest option
     \<Rightarrow> request list \<times> error option \<times> 't Verify" where
  "Request_Verify c v m p data =
     ([\<lparr>verb = m, resource = p, body = data\<rparr>], RequestVerify c v m p data)"

definition Request_VerifyMessage ::
  "'t Client \<Rightarrow> VerifyMessage \<Rightarrow> string \<Rightarrow> string \<Rightarrow> verifyRequest option
     \<Rightarrow> request list \<times> error option \<times> VerifyMessage" where
  "Request_VerifyMessage c v m p data =
     ([\<lparr>verb = m, resource = p, body = data\<rparr>], RequestVerifyMessage c v m p data)"

definition Request_Nil ::
  "'t Client \<Rightarrow> string \<Rightarrow> string \<Rightarrow> verifyRequest option \<Rightarrow> request list \<times> error option"
  where
  "Request_Nil c m p data =
     ([\<lparr>verb = m, resource = p, body = data\<rparr>], RequestNil c m p data)"

subsection \<open>Query strings\<close>

text \<open>
  \<^verbatim>\<open>url.QueryEscape\<close>: letters, digits and \<^verbatim>\<open>- _ . ~\<close> stay, a space
  becomes \<^verbatim>\<open>+\<close>, every other byte becomes \<^verbatim>\<open>%XX\<close> in upper-case
  hexadecimal.
\<close>

definition upperhex :: string where
  "upperhex = ''0123456789ABCDEF''"

definition unreserved :: "char \<Rightarrow> bool" where
  "unreserved c =
     (let n = (of_char c :: nat)
      in (97 \<le> n \<and> n \<le> 122) \<or> (65 \<le> n \<and> n \<le> 90) \<or> (48 \<le> n \<and> n \<le> 57)
         \<or> c = CHR ''-'' \<or> c = CHR ''_'' \<or> c = CHR ''.'' \<or> c = CHR ''~'')"

definition shouldEscape :: "char \<Rightarrow> bool" where
  "shouldEscape c = (\<not> unreserved c)"

definition escapeByte :: "char \<Rightarrow> string" where
  "escapeByte c =
     (if c = CHR '' '' then ''+''
      else if shouldEscape c
        then [CHR ''%'', upperhex ! ((of_char c :: nat) div 16),
              upperhex ! ((of_char c :: nat) mod 16)]
      else [c])"

definition QueryEscape :: "string \<Rightarrow> string" where
  "QueryEscape s = concat (map escapeByte s)"

text \<open>
  \<^verbatim>\<open>url.Values\<close> with one value per key, held sorted by key;
  \<^verbatim>\<open>Encode\<close> writes \<^verbatim>\<open>key=value\<close> pairs joined by \<^verbatim>\<open>&\<close>.
\<close>

fun Values_Encode :: "(string \<times> string) list \<Rightarrow> string" where
  "Values_Encode [] = ''''"
| "Values_Encode [(k, v)] = QueryEscape k @ ''='' @ QueryEscape v"
| "Values_Encode ((k, v) # kvs) = QueryEscape k @ ''='' @ QueryEscape v @ ''&'' @ Values_Encode kvs"

subsection \<open>The operations\<close>

definition Create ::
  "'t Client \<Rightarrow> string \<Rightarrow> Params option \<Rightarrow> request list \<times> (error + 't Verify)" where
  "Create c recipient params =
     (case requestDataForVerify recipient params of
        Inl err \<Rightarrow> ([], Inl err)
      | Inr requestData \<Rightarrow>
          (case Request_Verify c zeroVerify MethodPost path (Some requestData) of
             (sent, Some err, verify) \<Rightarrow> (sent, Inl err)
           | (sent, None, verify) \<Rightarrow> (sent, Inr verify)))"

definition Delete :: "'t Client \<Rightarrow> string \<Rightarrow> request list \<times> error option" where
  "Delete c id' = Request_Nil c MethodDelete (path @ ''/'' @ id') None"

definition Read :: "'t Client \<Rightarrow> string \<Rightarrow> request list \<times> (error + 't Verify)" where
  "Read c id' =
     (case Request_Verify c zeroVerify MethodGet (path @ ''/'' @ id') None of
        (sent, Some err, verify) \<Rightarrow> (sent, Inl err)
      | (sent, None, verify) \<Rightarrow> (sent, Inr verify))"

definition VerifyToken ::
  "'t Client \<Rightarrow> string \<Rightarrow> string \<Rightarrow> request list \<times> (error + 't Verify)" where
  "VerifyToken c id' token =
     (let params = [(''token'', token)];
          pathWithParams = path @ ''/'' @ id' @ ''?'' @ Values_Encode params
      in case Request_Verify c zeroVerify MethodGet pathWithParams None of
           (sent, Some err, verify) \<Rightarrow> (sent, Inl err)
         | (sent, None, verify) \<Rightarrow> (sent, Inr verify))"

definition ReadVerifyEmailMessage ::
  "'t Client \<Rightarrow> string \<Rightarrow> request list \<times> (error + VerifyMessage)" where
  "ReadVerifyEmailMessage c id' =
     (let messagePath = emailMessagesPath @ ''/'' @ id'
      in case Request_VerifyMessage c zeroVerifyMessage MethodGet messagePath None of
           (sent, Some err, verifyMessage) \<Rightarrow> (sent, Inl err)
         | (sent, None, verifyMessage) \<Rightarrow> (sent, Inr verifyMessage))"

subsection \<open>JSON values\<close>

text \<open>
  The decoder hands its byte slice to \<^verbatim>\<open>json.Unmarshal\<close>. The slice is
  represented by what the library's scanner makes of it: \<open>Invalid\<close> when the text is
  not one JSON value, \<open>Valid j\<close> when it is the value \<open>j\<close>. An object keeps its members
  in the order of the text, repeated keys included. A string is the bytes it denotes;
  a number keeps the text of its literal, which is what the library passes to
  \<^verbatim>\<open>strconv.ParseFloat\<close>.
\<close>

datatype json =
    JNull
  | JBool bool
  | JNumber string
  | JString string
  | JArray "json list"
  | JObject "(string \<times> json) list"

datatype bytes = Invalid | Valid json

subsection \<open>float64 and strconv\<close>

text \<open>
  A finite \<^verbatim>\<open>float64\<close>: its sign bit and its magnitude, a rational of the form
  \<open>m * 2 ^ e\<close> with \<open>m < 2 ^ 53\<close> and \<open>- 1074 \<le> e\<close>, below \<open>2 ^ 1024\<close>.
  \<^verbatim>\<open>encoding/json\<close> never yields an infinity or a NaN.
\<close>

record float64 =
  negative :: bool
  magnitude :: rat

definition pow2 :: "int \<Rightarrow> rat" where
  "pow2 e = (if 0 \<le> e then 2 ^ nat e else 1 / 2 ^ nat (- e))"

definition pow10 :: "int \<Rightarrow> rat" where
  "pow10 k = (if 0 \<le> k then 10 ^ nat k else 1 / 10 ^ nat (- k))"

text \<open>The exponent of the leading bit of a positive rational: \<open>2 ^ l \<le> q < 2 ^ (l + 1)\<close>.\<close>

definition log2floor :: "rat \<Rightarrow> int" where
  "log2floor q =
     (let (a, b) = quotient_of q; d = bitlen a - bitlen b
      in if pow2 d \<le> q then d else d - 1)"

definition roundHalfEven :: "rat \<Rightarrow> int" where
  "roundHalfEven x =
     (let n = \<lfloor>x\<rfloor>; r = x - of_int n
      in if r < 1 / 2 then n else if 1 / 2 < r then n + 1
         else if even n then n else n + 1)"

text \<open>
  IEEE 754 round to nearest, ties to even, of a rational \<open>q \<ge> 0\<close> into the binary64
  grid: 53 significant bits, the last one worth \<open>2 ^ lastPlace q\<close>, which is at
  least \<open>2 ^ - 1074\<close>. The result is \<open>2 ^ 1024\<close> or more exactly when \<open>q\<close> is out
  of range.
\<close>

definition lastPlace :: "rat \<Rightarrow> int" where
  "lastPlace q = max (log2floor q - 52) (- 1074)"

definition nearest64 :: "rat \<Rightarrow> rat" where
  "nearest64 q =
     (if q \<le> 0 then 0
      else let e = lastPlace q
           in of_int (roundHalfEven (q / pow2 e)) * pow2 e)"

text \<open>
  The rationals on the binary64 grid: whole multiples of the value of their last
  place. Every result of \<open>nearest64\<close> is one.
\<close>

definition onGrid :: "rat \<Rightarrow> bool" where
  "onGrid x = (of_int \<lfloor>x / pow2 (lastPlace x)\<rfloor> = x / pow2 (lastPlace x))"

definition isDigit :: "char \<Rightarrow> bool" where
  "isDigit c = (48 \<le> (of_char c :: int) \<and> (of_char c :: int) \<le> 57)"

definition intOfDigits :: "string \<Rightarrow> int" where
  "intOfDigits ds = foldl (\<lambda>a c. 10 * a + ((of_char c :: int) - 48)) 0 ds"

text \<open>
  The exponent part of a literal, after the mantissa: nothing, or \<^verbatim>\<open>e\<close> or
  \<^verbatim>\<open>E\<close>, an optional sign and digits.
\<close>

definition readExponent :: "string \<Rightarrow> int option" where
  "readExponent s =
     (case s of
        [] \<Rightarrow> Some 0
      | c # t \<Rightarrow>
          if c = CHR ''e'' \<or> c = CHR ''E'' then
            (case t of
               [] \<Rightarrow> None
             | d # u \<Rightarrow>
                 if d = CHR ''+'' then
                   (if u \<noteq> [] \<and> list_all isDigit u then Some (intOfDigits u) else None)
                 else if d = CHR ''-'' then
                   (if u \<noteq> [] \<and> list_all isDigit u then Some (- intOfDigits u) else None)
                 else if list_all isDigit t then Some (intOfDigits t) else None)
          else None)"

text \<open>
  The sign and the exact value of a decimal literal: an optional \<^verbatim>\<open>-\<close>, digits, an
  optional point and digits, an optional exponent. \<open>None\<close> when the text is not of that
  form. (\<^verbatim>\<open>strconv.ParseFloat\<close> also reads hexadecimal literals, underscores,
  infinities and NaN; the scanner passes none of them.)
\<close>

definition readFloat :: "string \<Rightarrow> (bool \<times> rat) option" where
  "readFloat s =
     (let neg = (s \<noteq> [] \<and> hd s = CHR ''-'');
          s1 = (if neg then tl s else s);
          ip = takeWhile isDigit s1;
          s2 = dropWhile isDigit s1;
          hasPoint = (s2 \<noteq> [] \<and> hd s2 = CHR ''.'');
          fp = (if hasPoint then takeWhile isDigit (tl s2) else []);
          s3 = (if hasPoint then dropWhile isDigit (tl s2) else s2)
      in if ip = [] \<and> fp = [] then None
         else case readExponent s3 of
                None \<Rightarrow> None
              | Some ex \<Rightarrow>
                  Some (neg,
                    (of_int (intOfDigits ip) + of_int (intOfDigits fp) / 10 ^ length fp)
                    * pow10 ex))"

datatype numError = ErrSyntax | ErrRange

text \<open>
  \<^verbatim>\<open>strconv.ParseFloat(s, 64)\<close>: the nearest \<^verbatim>\<open>float64\<close>, ties to even;
  \<^verbatim>\<open>ErrRange\<close> when the value is more than half a unit in the last place beyond
  the largest \<^verbatim>\<open>float64\<close>. A value too small rounds to zero without error.
\<close>

definition ParseFloat :: "string \<Rightarrow> numError + float64" where
  "ParseFloat s =
     (case readFloat s of
        None \<Rightarrow> Inl ErrSyntax
      | Some (neg, q) \<Rightarrow>
          (let x = nearest64 q
           in if pow2 1024 \<le> x then Inl ErrRange
              else Inr \<lparr>negative = neg, magnitude = x\<rparr>))"

definition digitChar :: "int \<Rightarrow> char" where
  "digitChar d = char_of (48 + d)"

text \<open>The decimal digits of a number \<open>n \<ge> 0\<close>, as \<^verbatim>\<open>strconv\<close> writes them.\<close>

function decimal :: "int \<Rightarrow> string" where
  "decimal n = (if n < 10 then [digitChar n] else decimal (n div 10) @ [digitChar (n mod 10)])"
  by pat_completeness auto
termination
  by (relation "measure nat") auto

declare decimal.simps [simp del]

text \<open>
  The shortest decimal that reads back as the positive \<^verbatim>\<open>float64\<close> \<open>x\<close>
  (\<^verbatim>\<open>strconv\<close>'s precision \<open>- 1\<close>: ``the smallest number of digits necessary to
  represent the value uniquely''). Digits of \<open>x\<close> are taken from the most significant
  place down; at the place worth \<open>10 ^ k\<close> the candidates are \<open>x\<close> cut off there and
  the next decimal above it. The first place where a candidate reads back as \<open>x\<close>
  (\<open>readsBack\<close>: \<open>x\<close> is the \<^verbatim>\<open>float64\<close> nearest to it) ends the search; when
  both do, \<open>x\<close> is rounded to that place, ties to even.
  The search runs over the places \<open>kmin + n\<close> down to \<open>kmin\<close>, where \<open>x\<close> has no
  digit below the place \<open>kmin\<close>. The result \<open>(d, k)\<close> stands for \<open>d * 10 ^ k\<close>.
\<close>

definition readsBack :: "rat \<Rightarrow> int \<Rightarrow> int \<Rightarrow> bool" where
  "readsBack x d k = (nearest64 (of_int d * pow10 k) = x)"

fun shortest :: "rat \<Rightarrow> int \<Rightarrow> nat \<Rightarrow> int \<times> int" where
  "shortest x kmin 0 = (\<lfloor>x / pow10 kmin\<rfloor>, kmin)"
| "shortest x kmin (Suc n) =
     (let k = kmin + int (Suc n);
          down = \<lfloor>x / pow10 k\<rfloor>;
          up = down + 1;
          okdown = readsBack x down k;
          okup = readsBack x up k
      in if okdown \<and> okup then (roundHalfEven (x / pow10 k), k)
         else if okdown then (down, k)
         else if okup then (up, k)
         else shortest x kmin n)"

text \<open>Neither candidate at the place worth \<open>10 ^ k\<close> reads back as \<open>x\<close>.\<close>

definition noneAt :: "rat \<Rightarrow> int \<Rightarrow> bool" where
  "noneAt x k =
     (\<not> readsBack x \<lfloor>x / pow10 k\<rfloor> k \<and> \<not> readsBack x (\<lfloor>x / pow10 k\<rfloor> + 1) k)"

definition roundShortest :: "rat \<Rightarrow> int \<times> int" where
  "roundShortest x =
     (let kmin = min (lastPlace x) 0;
          top = int (length (decimal \<lfloor>x\<rfloor>)) + 1
      in shortest x kmin (nat (top - kmin)))"

text \<open>
  \<^verbatim>\<open>%f\<close> of the digits \<open>ds\<close> with the decimal point after the first \<open>dp\<close> of
  them: the integer part padded with zeros, then as many fraction digits as \<open>ds\<close>
  has beyond the point and no more.
\<close>

definition fmtF :: "bool \<Rightarrow> string \<Rightarrow> int \<Rightarrow> string" where
  "fmtF neg ds dp =
     (let nd = int (length ds);
          m = min nd dp;
          whole = (if 0 < dp then take (nat m) ds @ replicate (nat (dp - m)) CHR ''0''
                   else ''0'');
          prec = max (nd - dp) 0;
          fraction =
            (if 0 < prec
             then CHR ''.'' #
               map (\<lambda>i. let j = dp + int i
                         in if 0 \<le> j \<and> j < nd then ds ! nat j else CHR ''0'')
                   [0 ..< nat prec]
             else [])
      in (if neg then ''-'' else '''') @ whole @ fraction)"

text \<open>
  \<^verbatim>\<open>strconv.FormatFloat(f, 'f', -1, 64)\<close>, the only mode this package calls.
  Zero has no digits.
\<close>

definition FormatFloat :: "float64 \<Rightarrow> string" where
  "FormatFloat f =
     (if magnitude f = 0 then fmtF (negative f) [] 0
      else let (d, k) = roundShortest (magnitude f); ds = decimal d
           in fmtF (negative f) ds (int (length ds) + k))"

subsection \<open>Decoding into an interface value\<close>

text \<open>
  The values \<^verbatim>\<open>encoding/json\<close> stores in an \<^verbatim>\<open>interface{}\<close>: nil,
  \<^verbatim>\<open>bool\<close>, \<^verbatim>\<open>float64\<close>, \<^verbatim>\<open>string\<close>,
  \<^verbatim>\<open>[]interface{}\<close> and \<^verbatim>\<open>map[string]interface{}\<close> (kept as a list of
  pairs with distinct keys).
\<close>

datatype any =
    nilAny
  | boolAny bool
  | float64Any float64
  | stringAny string
  | sliceAny "any list"
  | mapAny "(string \<times> any) list"

definition saveError :: "error \<Rightarrow> error option \<Rightarrow> error option" where
  "saveError err saved = (case saved of None \<Rightarrow> Some err | Some first \<Rightarrow> Some first)"

definition convertNumber :: "string \<Rightarrow> error + float64" where
  "convertNumber s =
     (case ParseFloat s of
        Inl err \<Rightarrow> Inl (UnmarshalTypeError (''number '' @ s) Float64Type)
      | Inr f \<Rightarrow> Inr f)"

definition mapAssign :: "string \<Rightarrow> any \<Rightarrow> (string \<times> any) list \<Rightarrow> (string \<times> any) list" where
  "mapAssign k x m = filter (\<lambda>p. fst p \<noteq> k) m @ [(k, x)]"

text \<open>
  The library decodes into an empty interface with \<^verbatim>\<open>valueInterface\<close>,
  \<^verbatim>\<open>arrayInterface\<close> and \<^verbatim>\<open>objectInterface\<close>. A number out of range is
  recorded with \<^verbatim>\<open>saveError\<close> (only the first error is kept) and decodes to nil;
  decoding goes on.
\<close>

fun valueInterface :: "json \<Rightarrow> error option \<Rightarrow> any \<times> error option"
  and arrayInterface :: "json list \<Rightarrow> error option \<Rightarrow> any list \<times> error option"
  and objectInterface ::
    "(string \<times> json) list \<Rightarrow> (string \<times> any) list \<Rightarrow> error option
       \<Rightarrow> (string \<times> any) list \<times> error option"
where
  "valueInterface JNull saved = (nilAny, saved)"
| "valueInterface (JBool b) saved = (boolAny b, saved)"
| "valueInterface (JString s) saved = (stringAny s, saved)"
| "valueInterface (JNumber s) saved =
     (case convertNumber s of
        Inl err \<Rightarrow> (nilAny, saveError err saved)
      | Inr f \<Rightarrow> (float64Any f, saved))"
| "valueInterface (JArray vs) saved =
     (case arrayInterface vs saved of (xs, saved') \<Rightarrow> (sliceAny xs, saved'))"
| "valueInterface (JObject ms) saved =
     (case objectInterface ms [] saved of (m, saved') \<Rightarrow> (mapAny m, saved'))"
| "arrayInterface [] saved = ([], saved)"
| "arrayInterface (v # vs) saved =
     (case valueInterface v saved of
        (x, saved1) \<Rightarrow>
          (case arrayInterface vs saved1 of (xs, saved2) \<Rightarrow> (x # xs, saved2)))"
| "objectInterface [] m saved = (m, saved)"
| "objectInterface (kv # ms) m saved =
     (case valueInterface (snd kv) saved of
        (x, saved1) \<Rightarrow> objectInterface ms (mapAssign (fst kv) x m) saved1)"

subsection \<open>Decoding into the wrapper struct\<close>

text \<open>
  \<^verbatim>\<open>UnmarshalJSON\<close> decodes into a local struct that embeds \<^verbatim>\<open>Alias\<close>
  (a copy of \<^verbatim>\<open>Verify\<close> without its methods) and declares
  \<^verbatim>\<open>Recipient interface{}\<close>. The outer \<^verbatim>\<open>Recipient\<close> hides the embedded
  one, so the library's fields of the wrapper are the outer \<^verbatim>\<open>Recipient\<close> and the
  other seven fields of \<^verbatim>\<open>Alias\<close>.
\<close>

record 't wrapper =
  Alias :: "'t Verify"
  Recipient :: any

definition zeroWrapper :: "'t wrapper" where
  "zeroWrapper = \<lparr>Alias = zeroVerify, wrapper.Recipient = nilAny\<rparr>"

datatype field =
    RecipientField
  | IDField
  | HRefField
  | ReferenceField
  | StatusField
  | MessagesField
  | CreatedDatetimeField
  | ValidUntilDatetimeField

text \<open>
  The fields carry no tag, so a member's key is matched against the Go field names,
  without regard to case. The library folds a key rune by rune to the least rune of
  its case orbit: an ASCII letter to upper case, and the long s (bytes C5 BF) to
  \<^verbatim>\<open>S\<close> and the Kelvin sign (bytes E2 84 AA) to \<^verbatim>\<open>K\<close>, the two runes
  outside ASCII whose orbit holds an ASCII letter. Every other byte outside ASCII is
  kept here as it is: it matches no field name either way.
\<close>

fun foldName :: "string \<Rightarrow> string" where
  "foldName [] = []"
| "foldName (c # cs) =
     (if 97 \<le> (of_char c :: nat) \<and> (of_char c :: nat) \<le> 122
        then char_of ((of_char c :: nat) - 32) # foldName cs
      else if (of_char c :: nat) = 197 \<and> cs \<noteq> [] \<and> (of_char (hd cs) :: nat) = 191
        then CHR ''S'' # foldName (tl cs)
      else if (of_char c :: nat) = 226 \<and> 2 \<le> length cs
              \<and> (of_char (hd cs) :: nat) = 132 \<and> (of_char (hd (tl cs)) :: nat) = 170
        then CHR ''K'' # foldName (tl (tl cs))
      else c # foldName cs)"

definition fieldTable :: "(string \<times> field) list" where
  "fieldTable =
     [(foldName ''Recipient'', RecipientField),
      (foldName ''ID'', IDField),
      (foldName ''HRef'', HRefField),
      (foldName ''Reference'', ReferenceField),
      (foldName ''Status'', StatusField),
      (foldName ''Messages'', MessagesField),
      (foldName ''CreatedDatetime'', CreatedDatetimeField),
      (foldName ''ValidUntilDatetime'', ValidUntilDatetimeField)]"

definition lookupField :: "string \<Rightarrow> field option" where
  "lookupField key = map_of fieldTable (foldName key)"

text \<open>The library's word for a JSON value in an \<^verbatim>\<open>UnmarshalTypeError\<close>.\<close>

fun describe :: "json \<Rightarrow> string" where
  "describe JNull = ''null''"
| "describe (JBool b) = ''bool''"
| "describe (JNumber s) = ''number''"
| "describe (JString s) = ''string''"
| "describe (JArray vs) = ''array''"
| "describe (JObject ms) = ''object''"

text \<open>
  Storing a JSON value in a Go \<^verbatim>\<open>string\<close> that holds \<open>cur\<close>: a JSON string is
  stored, null changes nothing, anything else is a type error, recorded with
  \<^verbatim>\<open>saveError\<close> while decoding goes on.
\<close>

fun storeString :: "json \<Rightarrow> string \<Rightarrow> error option \<Rightarrow> string \<times> error option" where
  "storeString (JString s) cur saved = (s, saved)"
| "storeString JNull cur saved = (cur, saved)"
| "storeString j cur saved = (cur, saveError (UnmarshalTypeError (describe j) StringType) saved)"

text \<open>Storing in a \<^verbatim>\<open>map[string]string\<close>: the members of an object are stored one by one.\<close>

fun mapElems ::
  "(string \<times> json) list \<Rightarrow> (string \<rightharpoonup> string) \<Rightarrow> error option
     \<Rightarrow> (string \<rightharpoonup> string) \<times> error option" where
  "mapElems [] m saved = (m, saved)"
| "mapElems (kv # ms) m saved =
     (case storeString (snd kv) '''' saved of
        (s, saved1) \<Rightarrow> mapElems ms (m(fst kv \<mapsto> s)) saved1)"

fun storeMap ::
  "json \<Rightarrow> (string \<rightharpoonup> string) option \<Rightarrow> error option
     \<Rightarrow> (string \<rightharpoonup> string) option \<times> error option" where
  "storeMap (JObject ms) cur saved =
     (case mapElems ms (case cur of None \<Rightarrow> Map.empty | Some m \<Rightarrow> m) saved of
        (m, saved1) \<Rightarrow> (Some m, saved1))"
| "storeMap JNull cur saved = (None, saved)"
| "storeMap j cur saved = (cur, saveError (UnmarshalTypeError (describe j) MapType) saved)"

text \<open>
  Storing in a \<^verbatim>\<open>*time.Time\<close>: null sets the pointer to nil; any other value is
  handed to \<^verbatim>\<open>(*time.Time).UnmarshalJSON\<close>, and its error ends the decoding at
  once. That method belongs to the \<^verbatim>\<open>time\<close> package and is a parameter here,
  \<open>unmarshalTime\<close>.
\<close>

fun storeTime :: "(json \<Rightarrow> error + 't) \<Rightarrow> json \<Rightarrow> error + 't option" where
  "storeTime unmarshalTime JNull = Inr None"
| "storeTime unmarshalTime j =
     (case unmarshalTime j of Inl err \<Rightarrow> Inl err | Inr t \<Rightarrow> Inr (Some t))"

text \<open>
  Storing in the empty interface that holds \<open>cur\<close>: a number out of range is recorded
  and leaves \<open>cur\<close>; every other value is stored as \<^verbatim>\<open>valueInterface\<close> decodes it.
\<close>

fun storeInterface :: "json \<Rightarrow> any \<Rightarrow> error option \<Rightarrow> any \<times> error option" where
  "storeInterface (JNumber s) cur saved =
     (case convertNumber s of
        Inl err \<Rightarrow> (cur, saveError err saved)
      | Inr f \<Rightarrow> (float64Any f, saved))"
| "storeInterface j cur saved = valueInterface j saved"

text \<open>
  The members of the object, in order: a key that matches no field is skipped, a
  matching member is stored in its field. The result is the error that ended the
  decoding, or the wrapper and the first recorded error.
\<close>

fun object ::
  "(json \<Rightarrow> error + 't) \<Rightarrow> (string \<times> json) list \<Rightarrow> 't wrapper \<Rightarrow> error option
     \<Rightarrow> error + ('t wrapper \<times> error option)" where
  "object unmarshalTime [] w saved = Inr (w, saved)"
| "object unmarshalTime (kv # ms) w saved =
     (case lookupField (fst kv) of
        None \<Rightarrow> object unmarshalTime ms w saved
      | Some RecipientField \<Rightarrow>
          (case storeInterface (snd kv) (wrapper.Recipient w) saved of
             (x, saved1) \<Rightarrow> object unmarshalTime ms (w\<lparr>wrapper.Recipient := x\<rparr>) saved1)
      | Some IDField \<Rightarrow>
          (case storeString (snd kv) (Verify.ID (Alias w)) saved of
             (s, saved1) \<Rightarrow>
               object unmarshalTime ms (w\<lparr>Alias := (Alias w)\<lparr>Verify.ID := s\<rparr>\<rparr>) saved1)
      | Some HRefField \<Rightarrow>
          (case storeString (snd kv) (HRef (Alias w)) saved of
             (s, saved1) \<Rightarrow>
               object unmarshalTime ms (w\<lparr>Alias := (Alias w)\<lparr>HRef := s\<rparr>\<rparr>) saved1)
      | Some ReferenceField \<Rightarrow>
          (case storeString (snd kv) (Verify.Reference (Alias w)) saved of
             (s, saved1) \<Rightarrow>
               object unmarshalTime ms (w\<lparr>Alias := (Alias w)\<lparr>Verify.Reference := s\<rparr>\<rparr>) saved1)
      | Some StatusField \<Rightarrow>
          (case storeString (snd kv) (Verify.Status (Alias w)) saved of
             (s, saved1) \<Rightarrow>
               object unmarshalTime ms (w\<lparr>Alias := (Alias w)\<lparr>Verify.Status := s\<rparr>\<rparr>) saved1)
      | Some MessagesField \<Rightarrow>
          (case storeMap (snd kv) (Messages (Alias w)) saved of
             (m, saved1) \<Rightarrow>
               object unmarshalTime ms (w\<lparr>Alias := (Alias w)\<lparr>Messages := m\<rparr>\<rparr>) saved1)
      | Some CreatedDatetimeField \<Rightarrow>
          (case storeTime unmarshalTime (snd kv) of
             Inl err \<Rightarrow> Inl err
           | Inr t \<Rightarrow>
               object unmarshalTime ms (w\<lparr>Alias := (Alias w)\<lparr>CreatedDatetime := t\<rparr>\<rparr>) saved)
      | Some ValidUntilDatetimeField \<Rightarrow>
          (case storeTime unmarshalTime (snd kv) of
             Inl err \<Rightarrow> Inl err
           | Inr t \<Rightarrow>
               object unmarshalTime ms (w\<lparr>Alias := (Alias w)\<lparr>ValidUntilDatetime := t\<rparr>\<rparr>) saved))"

text \<open>
  \<^verbatim>\<open>json.Unmarshal(b, &wrapper)\<close>: a syntax error for text that is not JSON; an
  object is decoded member by member; null changes nothing; any other value is a
  type error. The call returns the error that ended the decoding, else the first
  recorded error, else nil, and then the wrapper is the result.
\<close>

definition Unmarshal :: "(json \<Rightarrow> error + 't) \<Rightarrow> bytes \<Rightarrow> 't wrapper \<Rightarrow> error + 't wrapper" where
  "Unmarshal unmarshalTime b w =
     (case b of
        Invalid \<Rightarrow> Inl SyntaxError
      | Valid (JObject ms) \<Rightarrow>
          (case object unmarshalTime ms w None of
             Inl err \<Rightarrow> Inl err
           | Inr (w', Some err) \<Rightarrow> Inl err
           | Inr (w', None) \<Rightarrow> Inr w')
      | Valid JNull \<Rightarrow> Inr w
      | Valid j \<Rightarrow> Inl (UnmarshalTypeError (describe j) StructType))"

subsection \<open>The decoder\<close>

text \<open>\<^verbatim>\<open>%T\<close> of an interface value: the name of its dynamic type.\<close>

fun typeName :: "any \<Rightarrow> string" where
  "typeName nilAny = ''<nil>''"
| "typeName (boolAny b) = ''bool''"
| "typeName (float64Any f) = ''float64''"
| "typeName (stringAny s) = ''string''"
| "typeName (sliceAny xs) = ''[]interface {}''"
| "typeName (mapAny m) = ''map[string]interface {}''"

text \<open>
  \<^verbatim>\<open>(v *Verify) UnmarshalJSON(b)\<close>. The receiver is \<open>None\<close> when the pointer is
  nil. The result is the error, or the value stored in \<open>*v\<close>; on an error \<open>*v\<close> is
  left as it was.
\<close>

definition UnmarshalJSON ::
  "(json \<Rightarrow> error + 't) \<Rightarrow> 't Verify option \<Rightarrow> bytes \<Rightarrow> error + 't Verify" where
  "UnmarshalJSON unmarshalTime v b =
     (case v of
        None \<Rightarrow> Inl (errors_New ''cannot unmarshal to nil pointer'')
      | Some old \<Rightarrow>
          (case Unmarshal unmarshalTime b zeroWrapper of
             Inl err \<Rightarrow> Inl err
           | Inr wrapper \<Rightarrow>
               (case wrapper.Recipient wrapper of
                  float64Any asFloat \<Rightarrow>
                    Inr ((Alias wrapper)\<lparr>Verify.Recipient := FormatFloat asFloat\<rparr>)
                | stringAny s \<Rightarrow> Inr ((Alias wrapper)\<lparr>Verify.Recipient := s\<rparr>)
                | other \<Rightarrow>
                    Inl (errorString (''recipient is unknown type '' @ typeName other)))))"

subsection \<open>The text of a request body\<close>

text \<open>
  The client hands a body that is not nil to \<^verbatim>\<open>json.Marshal\<close>. For a
  \<^verbatim>\<open>*verifyRequest\<close> the library's struct encoder writes the members of the wire
  form between braces, separated by commas: the name in double quotes, a colon, the
  value. An \<^verbatim>\<open>int\<close> is written in decimal. A string is written by the library's
  \<^verbatim>\<open>appendString\<close>, with the escaping of HTML characters that
  \<^verbatim>\<open>json.Marshal\<close> switches on: between double quotes, an ASCII byte stays when
  it is printable and none of the double quote, the backslash, \<^verbatim>\<open><\<close>,
  \<^verbatim>\<open>>\<close> and \<^verbatim>\<open>&\<close>; the double quote and the backslash get a backslash
  in front; backspace, form feed, newline, carriage return and tab are written as a
  backslash and one of the letters \<^verbatim>\<open>b f n r t\<close> (Go 1.22 and later; older
  releases write backspace and form feed as the six bytes of a \<^verbatim>\<open>u0008\<close> and
  \<^verbatim>\<open>u000c\<close> escape); every other ASCII byte becomes a backslash, \<^verbatim>\<open>u00\<close>
  and two lower-case hexadecimal digits. Bytes from \<open>0x80\<close> on are read as UTF-8,
  one rune at a time, with \<^verbatim>\<open>utf8.DecodeRuneInString\<close>: a byte that starts no
  valid encoding becomes the escape \<^verbatim>\<open>ufffd\<close>, the runes U+2028 and U+2029
  become the escapes \<^verbatim>\<open>u2028\<close> and \<^verbatim>\<open>u2029\<close>, every other rune is
  copied.
\<close>

definition hex :: string where
  "hex = ''0123456789abcdef''"

definition RuneError :: nat where
  "RuneError = 0xFFFD"

definition UTFMax :: nat where
  "UTFMax = 4"

text \<open>
  The table \<^verbatim>\<open>first\<close> of \<^verbatim>\<open>unicode/utf8\<close>, for a leading byte from
  \<open>0x80\<close> on: the length of the encoding it starts and the range its second byte
  must lie in; \<open>None\<close> for a byte that starts no encoding.
\<close>

definition first :: "nat \<Rightarrow> (nat \<times> nat \<times> nat) option" where
  "first s0 =
     (if 0xC2 \<le> s0 \<and> s0 \<le> 0xDF then Some (2, 0x80, 0xBF)
      else if s0 = 0xE0 then Some (3, 0xA0, 0xBF)
      else if 0xE1 \<le> s0 \<and> s0 \<le> 0xEC then Some (3, 0x80, 0xBF)
      else if s0 = 0xED then Some (3, 0x80, 0x9F)
      else if 0xEE \<le> s0 \<and> s0 \<le> 0xEF then Some (3, 0x80, 0xBF)
      else if s0 = 0xF0 then Some (4, 0x90, 0xBF)
      else if 0xF1 \<le> s0 \<and> s0 \<le> 0xF3 then Some (4, 0x80, 0xBF)
      else if s0 = 0xF4 then Some (4, 0x80, 0x8F)
      else None)"

text \<open>The rune at the head of a string and the number of bytes it takes.\<close>

fun DecodeRuneInString :: "string \<Rightarrow> nat \<times> nat" where
  "DecodeRuneInString [] = (RuneError, 0)"
| "DecodeRuneInString (c0 # s) =
     (let s0 = (of_char c0 :: nat)
      in if s0 < 0x80 then (s0, 1)
         else case first s0 of
           None \<Rightarrow> (RuneError, 1)
         | Some (sz, lo, hi) \<Rightarrow>
             if length (c0 # s) < sz then (RuneError, 1)
             else
               let s1 = (of_char (s ! 0) :: nat)
               in if s1 < lo \<or> hi < s1 then (RuneError, 1)
                  else if sz \<le> 2 then (s0 mod 32 * 64 + s1 mod 64, 2)
                  else
                    let s2 = (of_char (s ! 1) :: nat)
                    in if s2 < 0x80 \<or> 0xBF < s2 then (RuneError, 1)
                       else if sz \<le> 3
                         then (s0 mod 16 * 4096 + s1 mod 64 * 64 + s2 mod 64, 3)
                       else
                         let s3 = (of_char (s ! 2) :: nat)
                         in if s3 < 0x80 \<or> 0xBF < s3 then (RuneError, 1)
                            else (s0 mod 8 * 262144 + s1 mod 64 * 4096 + s2 mod 64 * 64
                                    + s3 mod 64, 4))"

definition htmlSafe :: "char \<Rightarrow> bool" where
  "htmlSafe b =
     (0x20 \<le> (of_char b :: nat) \<and> (of_char b :: nat) < 0x80
      \<and> b \<noteq> CHR 0x22 \<and> b \<noteq> CHR ''&'' \<and> b \<noteq> CHR ''<'' \<and> b \<noteq> CHR ''>''
      \<and> b \<noteq> CHR 0x5C)"

definition escapeASCII :: "char \<Rightarrow> string" where
  "escapeASCII b =
     (if htmlSafe b then [b]
      else if b = CHR 0x5C \<or> b = CHR 0x22 then [CHR 0x5C, b]
      else if b = CHR 0x08 then [CHR 0x5C, CHR ''b'']
      else if b = CHR 0x0C then [CHR 0x5C, CHR ''f'']
      else if b = CHR 0x0A then [CHR 0x5C, CHR ''n'']
      else if b = CHR 0x0D then [CHR 0x5C, CHR ''r'']
      else if b = CHR 0x09 then [CHR 0x5C, CHR ''t'']
      else [CHR 0x5C, CHR ''u'', CHR ''0'', CHR ''0'', hex ! ((of_char b :: nat) div 16),
            hex ! ((of_char b :: nat) mod 16)])"

text \<open>The loop of \<^verbatim>\<open>appendString\<close>: what is written between the quotes.\<close>

function escapeString :: "string \<Rightarrow> string" where
  "escapeString [] = []"
| "escapeString (b # s) =
     (if (of_char b :: nat) < 0x80 then escapeASCII b @ escapeString s
      else
        case DecodeRuneInString (take UTFMax (b # s)) of (c, size') \<Rightarrow>
          if c = RuneError \<and> size' = 1 then CHR 0x5C # ''ufffd'' @ escapeString s
          else if c = 0x2028 \<or> c = 0x2029
            then CHR 0x5C # ''u202'' @ [hex ! (c mod 16)] @ escapeString (drop size' (b # s))
          else take size' (b # s) @ escapeString (drop size' (b # s)))"
  by pat_completeness auto
termination
proof -
  have pos: "0 < y" if "(x, y) = DecodeRuneInString (take UTFMax (b # s))" for x y b s
    using that [symmetric]
    by (auto simp: UTFMax_def Let_def split: if_splits option.splits prod.splits)
  show ?thesis
    by (relation "measure length") (auto dest!: pos)
qed

definition appendString :: "string \<Rightarrow> string" where
  "appendString src = CHR 0x22 # escapeString src @ [CHR 0x22]"

text \<open>\<^verbatim>\<open>strconv.AppendInt\<close> in base 10.\<close>

definition AppendInt :: "int \<Rightarrow> string" where
  "AppendInt i = (if i < 0 then CHR ''-'' # decimal (- i) else decimal i)"

fun encodeMember :: "string \<times> member_value \<Rightarrow> string" where
  "encodeMember (name, StringField s) = appendString name @ '':'' @ appendString s"
| "encodeMember (name, IntField i) = appendString name @ '':'' @ AppendInt i"

fun joinMembers :: "string list \<Rightarrow> string" where
  "joinMembers [] = []"
| "joinMembers [m] = m"
| "joinMembers (m # ms) = m @ '','' @ joinMembers ms"

definition Marshal :: "verifyRequest \<Rightarrow> string" where
  "Marshal q = ''{'' @ joinMembers (map encodeMember (members q)) @ ''}''"

subsection \<open>Test doubles\<close>

text \<open>
  Two clients for concrete runs: one whose every call fails with a given error, and
  one whose every call succeeds and writes the arguments it was called with into its
  target: the verb into \<^verbatim>\<open>ID\<close>, the path into \<^verbatim>\<open>HRef\<close>
  (\<^verbatim>\<open>Status\<close> for a \<^verbatim>\<open>VerifyMessage\<close>) and the text of the body, empty
  for nil, into \<^verbatim>\<open>Reference\<close>.
\<close>

definition failingClient :: "error \<Rightarrow> unit Client" where
  "failingClient e =
     \<lparr>RequestVerify = (\<lambda>v m p d. (Some e, v)),
      RequestVerifyMessage = (\<lambda>v m p d. (Some e, v)),
      RequestNil = (\<lambda>m p d. Some e)\<rparr>"

definition bodyText :: "verifyRequest option \<Rightarrow> string" where
  "bodyText d = (case d of None \<Rightarrow> '''' | Some q \<Rightarrow> Marshal q)"

definition echoClient :: "unit Client" where
  "echoClient =
     \<lparr>RequestVerify =
        (\<lambda>v m p d. (None, v\<lparr>Verify.ID := m, Verify.HRef := p,
                              Verify.Reference := bodyText d\<rparr>)),
      RequestVerifyMessage =
        (\<lambda>v m p d. (None, v\<lparr>VerifyMessage.ID := m, VerifyMessage.Status := p\<rparr>)),
      RequestNil = (\<lambda>m p d. None)\<rparr>"


subsection \<open>The member that decides the recipient\<close>

text \<open>
  The member of an object that ends up in the wrapper's \<^verbatim>\<open>Recipient\<close>: the
  last one whose key names that field. A payload that is not an object has none.
\<close>

fun recipientMember :: "(string \<times> json) list \<Rightarrow> json option" where
  "recipientMember [] = None"
| "recipientMember (kv # ms) =
     (case recipientMember ms of
        Some j \<Rightarrow> Some j
      | None \<Rightarrow> if lookupField (fst kv) = Some RecipientField then Some (snd kv) else None)"

fun recipientOf :: "bytes \<Rightarrow> json option" where
  "recipientOf (Valid (JObject ms)) = recipientMember ms"
| "recipientOf b = None"

text \<open>
  The dynamic type \<^verbatim>\<open>encoding/json\<close> gives a JSON value stored in an empty
  interface, as \<^verbatim>\<open>%T\<close> prints it.
\<close>

fun dynamicType :: "json \<Rightarrow> string" where
  "dynamicType JNull = ''<nil>''"
| "dynamicType (JBool t) = ''bool''"
| "dynamicType (JNumber s) = ''float64''"
| "dynamicType (JString s) = ''string''"
| "dynamicType (JArray vs) = ''[]interface {}''"
| "dynamicType (JObject ms) = ''map[string]interface {}''"

text \<open>
  A \<^verbatim>\<open>time\<close> decoder for concrete runs on payloads without timestamps: it
  rejects every value.
\<close>

definition noTime :: "json \<Rightarrow> error + unit" where
  "noTime j = Inl (errorString ''Time.UnmarshalJSON: input is not a JSON string'')"

section \<open>Properties of the request builder and the operations\<close>








lemma upperhex_all: "list_all (\<lambda>n. unreserved (upperhex ! n)) [0..<16]"
  by code_simp

lemma upperhex_unreserved: "n < 16 \<Longrightarrow> unreserved (upperhex ! n)"
  using upperhex_all by (simp add: list_all_iff)

lemma of_char_div_16: "(of_char c :: nat) div 16 < 16"
proof -
  have "(of_char c :: nat) mod 256 < 256" by (rule mod_less_divisor) simp
  then have "(of_char c :: nat) < 256" by (simp only: of_char_mod_256)
  then show ?thesis by arith
qed

lemma escapeByte_chars:
  "ch \<in> set (escapeByte c) \<Longrightarrow> unreserved ch \<or> ch = CHR ''+'' \<or> ch = CHR ''%''"
  using upperhex_unreserved [OF of_char_div_16, of c]
    upperhex_unreserved [of "(of_char c :: nat) mod 16"]
  by (auto simp: escapeByte_def shouldEscape_def split: if_splits)

lemma QueryEscape_chars:
  "ch \<in> set (QueryEscape s) \<Longrightarrow> unreserved ch \<or> ch = CHR ''+'' \<or> ch = CHR ''%''"
  by (auto simp: QueryEscape_def dest: escapeByte_chars)

text \<open>
  C5. \<^verbatim>\<open>Create\<close> with the empty recipient, for every client and every params
  value (nil or not): the result is the error ``recipient is required'', no
  \<^verbatim>\<open>Verify\<close> is returned, and no call of \<^verbatim>\<open>c.Request\<close> is made.
\<close>

theorem Create_empty_recipient:
  "Create c '''' params = ([], Inl (errorString ''recipient is required''))"
  by (simp add: Create_def requestDataForVerify_def errors_New_def)

lemma escapeString_htmlSafe: "list_all htmlSafe r \<Longrightarrow> escapeString r = r"
  by (induction r) (auto simp: escapeASCII_def htmlSafe_def)

lemma appendString_recipient:
  "appendString ''recipient'' = [CHR 0x22] @ ''recipient'' @ [CHR 0x22]"
  by (simp add: appendString_def escapeASCII_def htmlSafe_def)

lemma Create_result:
  "requestDataForVerify r p = Inr req \<Longrightarrow>
   Create c r p =
     ([\<lparr>verb = ''POST'', resource = ''verify'', body = Some req\<rparr>],
      case RequestVerify c zeroVerify ''POST'' ''verify'' (Some req) of
        (Some err, verify) \<Rightarrow> Inl err
      | (None, verify) \<Rightarrow> Inr verify)"
  by (simp add: Create_def Request_Verify_def MethodPost_def path_def
      split: prod.splits option.splits)

text \<open>
  C6, as amended. For a non-empty recipient \<open>r\<close> and nil params the builder returns a
  request in which only \<^verbatim>\<open>Recipient\<close> is set, to \<open>r\<close>. Its wire form has the one
  member \<^verbatim>\<open>recipient\<close> holding \<open>r\<close>, and the text \<^verbatim>\<open>json.Marshal\<close> writes
  for it is an opening brace, the name \<^verbatim>\<open>recipient\<close> in double quotes, a colon,
  the string literal the library writes for \<open>r\<close>, and a closing brace: no optional
  field appears. When every byte of \<open>r\<close> is printable ASCII and none of the double
  quote, the backslash, \<^verbatim>\<open><\<close>, \<^verbatim>\<open>>\<close> and \<^verbatim>\<open>&\<close>, that literal is
  \<open>r\<close> itself between double quotes. \<^verbatim>\<open>Create\<close> makes one call of
  \<^verbatim>\<open>c.Request\<close>, for every client: POST to the path \<^verbatim>\<open>verify\<close>, with that
  request as body and a zero \<^verbatim>\<open>Verify\<close> as target; and it returns what this call
  returns, the error or else the \<^verbatim>\<open>Verify\<close> the client has filled.
\<close>

theorem builder_nil_params:
  assumes "r \<noteq> ''''"
  shows "\<exists>req. requestDataForVerify r None = Inr req
       \<and> req = \<lparr>verifyRequest.Recipient = r, Originator = '''', Reference = '''',
                 Type = '''', Template = '''', DataCoding = '''', ReportURL = '''',
                 Voice = '''', Language = '''', Timeout = 0, TokenLength = 0,
                 Subject = ''''\<rparr>
       \<and> members req = [(''recipient'', StringField r)]
       \<and> Marshal req =
           ''{'' @ [CHR 0x22] @ ''recipient'' @ [CHR 0x22] @ '':'' @ appendString r @ ''}''
       \<and> (list_all htmlSafe r \<longrightarrow>
            Marshal req =
              ''{'' @ [CHR 0x22] @ ''recipient'' @ [CHR 0x22] @ '':''
                @ [CHR 0x22] @ r @ [CHR 0x22] @ ''}'')
       \<and> Create c r None =
           ([\<lparr>verb = ''POST'', resource = ''verify'', body = Some req\<rparr>],
            case RequestVerify c zeroVerify ''POST'' ''verify'' (Some req) of
              (Some err, verify) \<Rightarrow> Inl err
            | (None, verify) \<Rightarrow> Inr verify)"
proof -
  let ?req = "\<lparr>verifyRequest.Recipient = r, Originator = '''', Reference = '''',
                 Type = '''', Template = '''', DataCoding = '''', ReportURL = '''',
                 Voice = '''', Language = '''', Timeout = 0, TokenLength = 0,
                 Subject = ''''\<rparr>"
  from assms have built: "requestDataForVerify r None = Inr ?req"
    by (simp add: requestDataForVerify_def)
  have mem: "members ?req = [(''recipient'', StringField r)]"
    by (simp add: members_def stringMember_def intMember_def)
  have wire: "Marshal ?req =
      ''{'' @ [CHR 0x22] @ ''recipient'' @ [CHR 0x22] @ '':'' @ appendString r @ ''}''"
    by (simp add: Marshal_def mem appendString_recipient)
  have plain: "Marshal ?req =
      ''{'' @ [CHR 0x22] @ ''recipient'' @ [CHR 0x22] @ '':'' @ [CHR 0x22] @ r @ [CHR 0x22] @ ''}''"
    if "list_all htmlSafe r"
    using wire escapeString_htmlSafe [OF that] by (simp add: appendString_def)
  note call = Create_result [OF built, of c]
  from built mem wire plain call show ?thesis
    by blast
qed

theorem builder_nil_params_witness:
  "''31612345678'' \<noteq> '''' \<and> list_all htmlSafe ''31612345678''
   \<and> (\<exists>req. requestDataForVerify ''31612345678'' None = Inr req
        \<and> members req = [(''recipient'', StringField ''31612345678'')]
        \<and> Marshal req =
            ''{'' @ [CHR 0x22] @ ''recipient'' @ [CHR 0x22] @ '':''
              @ [CHR 0x22] @ ''31612345678'' @ [CHR 0x22] @ ''}''
        \<and> Create echoClient ''31612345678'' None =
            ([\<lparr>verb = ''POST'', resource = ''verify'', body = Some req\<rparr>],
             Inr \<lparr>Verify.ID = ''POST'', HRef = ''verify'',
                  Reference =
                    ''{'' @ [CHR 0x22] @ ''recipient'' @ [CHR 0x22] @ '':''
                      @ [CHR 0x22] @ ''31612345678'' @ [CHR 0x22] @ ''}'',
                  Status = '''', Messages = None, CreatedDatetime = None,
                  ValidUntilDatetime = None, Recipient = ''''\<rparr>))"
proof -
  have ne: "''31612345678'' \<noteq> ''''" by simp
  have safe: "list_all htmlSafe ''31612345678''" by (simp add: htmlSafe_def)
  from builder_nil_params [OF ne, of echoClient]
  obtain req where req: "requestDataForVerify ''31612345678'' None = Inr req"
    and mem: "members req = [(''recipient'', StringField ''31612345678'')]"
    and plain: "list_all htmlSafe ''31612345678'' \<longrightarrow>
        Marshal req =
          ''{'' @ [CHR 0x22] @ ''recipient'' @ [CHR 0x22] @ '':''
            @ [CHR 0x22] @ ''31612345678'' @ [CHR 0x22] @ ''}''"
    and call: "Create echoClient ''31612345678'' None =
        ([\<lparr>verb = ''POST'', resource = ''verify'', body = Some req\<rparr>],
         case RequestVerify echoClient zeroVerify ''POST'' ''verify'' (Some req) of
           (Some err, verify) \<Rightarrow> Inl err
         | (None, verify) \<Rightarrow> Inr verify)"
    by blast
  from plain safe have wire: "Marshal req =
      ''{'' @ [CHR 0x22] @ ''recipient'' @ [CHR 0x22] @ '':''
        @ [CHR 0x22] @ ''31612345678'' @ [CHR 0x22] @ ''}''"
    by simp
  from call wire have "Create echoClient ''31612345678'' None =
      ([\<lparr>verb = ''POST'', resource = ''verify'', body = Some req\<rparr>],
       Inr \<lparr>Verify.ID = ''POST'', HRef = ''verify'',
            Reference =
              ''{'' @ [CHR 0x22] @ ''recipient'' @ [CHR 0x22] @ '':''
                @ [CHR 0x22] @ ''31612345678'' @ [CHR 0x22] @ ''}'',
            Status = '''', Messages = None, CreatedDatetime = None,
            ValidUntilDatetime = None, Recipient = ''''\<rparr>)"
    by (simp add: echoClient_def bodyText_def zeroVerify_def)
  with ne safe req mem wire show ?thesis by blast
qed

theorem builder_nil_params_counterexample:
  "requestDataForVerify [CHR ''a'', CHR 0xFF, CHR ''b''] None =
     Inr \<lparr>verifyRequest.Recipient = [CHR ''a'', CHR 0xFF, CHR ''b''], Originator = '''',
          Reference = '''', Type = '''', Template = '''', DataCoding = '''',
          ReportURL = '''', Voice = '''', Language = '''', Timeout = 0, TokenLength = 0,
          Subject = ''''\<rparr>
   \<and> Marshal \<lparr>verifyRequest.Recipient = [CHR ''a'', CHR 0xFF, CHR ''b''], Originator = '''',
          Reference = '''', Type = '''', Template = '''', DataCoding = '''',
          ReportURL = '''', Voice = '''', Language = '''', Timeout = 0, TokenLength = 0,
          Subject = ''''\<rparr> =
       ''{'' @ [CHR 0x22] @ ''recipient'' @ [CHR 0x22] @ '':''
         @ [CHR 0x22] @ ''a'' @ [CHR 0x5C] @ ''ufffdb'' @ [CHR 0x22] @ ''}''"
  by (simp add: requestDataForVerify_def Marshal_def members_def stringMember_def
      intMember_def appendString_def escapeASCII_def htmlSafe_def UTFMax_def first_def)



lemma escapeByte_unreserved: "unreserved c \<Longrightarrow> escapeByte c = [c]"
  by (auto simp: escapeByte_def shouldEscape_def unreserved_def)

lemma QueryEscape_unreserved: "list_all unreserved s \<Longrightarrow> QueryEscape s = s"
  by (induction s) (simp_all add: QueryEscape_def escapeByte_unreserved)

lemma Values_Encode_token: "Values_Encode [(''token'', token)] = ''token='' @ QueryEscape token"
proof -
  have "list_all unreserved ''token''" by (simp add: unreserved_def)
  then have "QueryEscape ''token'' = ''token''" by (rule QueryEscape_unreserved)
  then show ?thesis by simp
qed

text \<open>
  C8. \<^verbatim>\<open>VerifyToken\<close> makes exactly one call of \<^verbatim>\<open>c.Request\<close>, for every
  client, id and token: GET, no body, a zero \<^verbatim>\<open>Verify\<close> as target, to the path
  \<^verbatim>\<open>verify/\<close> + id + \<^verbatim>\<open>?token=\<close> + the token as \<^verbatim>\<open>url.QueryEscape\<close>
  writes it; and it returns what this call returns, the error or else the
  \<^verbatim>\<open>Verify\<close> the client has filled. The escaped token is made of letters, digits,
  \<^verbatim>\<open>- _ . ~\<close>, \<^verbatim>\<open>+\<close> and \<^verbatim>\<open>%\<close> only, and a token made of letters,
  digits and \<^verbatim>\<open>- _ . ~\<close> is its own escaped form.
\<close>

theorem VerifyToken_request:
  "VerifyToken c id' token =
     ([\<lparr>verb = ''GET'', resource = ''verify/'' @ id' @ ''?token='' @ QueryEscape token,
        body = None\<rparr>],
      case RequestVerify c zeroVerify ''GET''
             (''verify/'' @ id' @ ''?token='' @ QueryEscape token) None of
        (Some err, verify) \<Rightarrow> Inl err
      | (None, verify) \<Rightarrow> Inr verify)
   \<and> (\<forall>ch \<in> set (QueryEscape token). unreserved ch \<or> ch = CHR ''+'' \<or> ch = CHR ''%'')
   \<and> (list_all unreserved token \<longrightarrow> QueryEscape token = token)"
proof -
  have "VerifyToken c id' token =
     ([\<lparr>verb = ''GET'', resource = ''verify/'' @ id' @ ''?token='' @ QueryEscape token,
        body = None\<rparr>],
      case RequestVerify c zeroVerify ''GET''
             (''verify/'' @ id' @ ''?token='' @ QueryEscape token) None of
        (Some err, verify) \<Rightarrow> Inl err
      | (None, verify) \<Rightarrow> Inr verify)"
    unfolding VerifyToken_def Let_def Values_Encode_token
    by (simp add: Request_Verify_def MethodGet_def path_def split: prod.splits option.splits)
  moreover have "\<forall>ch \<in> set (QueryEscape token). unreserved ch \<or> ch = CHR ''+'' \<or> ch = CHR ''%''"
    by (auto dest: QueryEscape_chars)
  moreover have "list_all unreserved token \<longrightarrow> QueryEscape token = token"
    by (simp add: QueryEscape_unreserved)
  ultimately show ?thesis by blast
qed

theorem VerifyToken_request_witness:
  "list_all unreserved ''1234''
   \<and> VerifyToken echoClient ''abc'' ''1234'' =
     ([\<lparr>verb = ''GET'', resource = ''verify/abc?token=1234'', body = None\<rparr>],
      Inr \<lparr>Verify.ID = ''GET'', HRef = ''verify/abc?token=1234'', Reference = '''',
           Status = '''', Messages = None, CreatedDatetime = None,
           ValidUntilDatetime = None, Recipient = ''''\<rparr>)
   \<and> VerifyToken echoClient ''abc'' ''a b&c/d'' =
     ([\<lparr>verb = ''GET'', resource = ''verify/abc?token=a+b%26c%2Fd'', body = None\<rparr>],
      Inr \<lparr>Verify.ID = ''GET'', HRef = ''verify/abc?token=a+b%26c%2Fd'', Reference = '''',
           Status = '''', Messages = None, CreatedDatetime = None,
           ValidUntilDatetime = None, Recipient = ''''\<rparr>)
   \<and> VerifyToken (failingClient (errorString ''not found'')) ''abc'' ''1234'' =
     ([\<lparr>verb = ''GET'', resource = ''verify/abc?token=1234'', body = None\<rparr>],
      Inl (errorString ''not found''))"
proof -
  have safe: "list_all unreserved ''1234''" by (simp add: unreserved_def)
  have esc: "QueryEscape ''a b&c/d'' = ''a+b%26c%2Fd''"
    by (simp add: QueryEscape_def escapeByte_def shouldEscape_def unreserved_def upperhex_def)
  from VerifyToken_request [of echoClient "''abc''" "''1234''"] safe
  have one: "VerifyToken echoClient ''abc'' ''1234'' =
     ([\<lparr>verb = ''GET'', resource = ''verify/abc?token=1234'', body = None\<rparr>],
      Inr \<lparr>Verify.ID = ''GET'', HRef = ''verify/abc?token=1234'', Reference = '''',
           Status = '''', Messages = None, CreatedDatetime = None,
           ValidUntilDatetime = None, Recipient = ''''\<rparr>)"
    by (simp add: echoClient_def bodyText_def zeroVerify_def)
  from VerifyToken_request [of echoClient "''abc''" "''a b&c/d''"] esc
  have two: "VerifyToken echoClient ''abc'' ''a b&c/d'' =
     ([\<lparr>verb = ''GET'', resource = ''verify/abc?token=a+b%26c%2Fd'', body = None\<rparr>],
      Inr \<lparr>Verify.ID = ''GET'', HRef = ''verify/abc?token=a+b%26c%2Fd'', Reference = '''',
           Status = '''', Messages = None, CreatedDatetime = None,
           ValidUntilDatetime = None, Recipient = ''''\<rparr>)"
    by (simp add: echoClient_def bodyText_def zeroVerify_def)
  from VerifyToken_request [of "failingClient (errorString ''not found'')" "''abc''" "''1234''"]
    safe
  have three: "VerifyToken (failingClient (errorString ''not found'')) ''abc'' ''1234'' =
     ([\<lparr>verb = ''GET'', resource = ''verify/abc?token=1234'', body = None\<rparr>],
      Inl (errorString ''not found''))"
    by (simp add: failingClient_def)
  from safe one two three show ?thesis by blast
qed

text \<open>
  C9. When the call of \<^verbatim>\<open>c.Request\<close> an operation makes returns the error \<open>e\<close>,
  the operation returns \<open>e\<close> itself, and no \<^verbatim>\<open>Verify\<close> or
  \<^verbatim>\<open>VerifyMessage\<close>, and it has made that one call only. This holds for
  \<^verbatim>\<open>Create\<close> (once the builder has accepted its arguments), \<^verbatim>\<open>Delete\<close>,
  \<^verbatim>\<open>Read\<close>, \<^verbatim>\<open>VerifyToken\<close> and \<^verbatim>\<open>ReadVerifyEmailMessage\<close>.
\<close>

theorem transport_error_unchanged:
  "(requestDataForVerify recipient params = Inr requestData
      \<and> fst (RequestVerify c zeroVerify MethodPost path (Some requestData)) = Some e
      \<longrightarrow> snd (Create c recipient params) = Inl e
          \<and> length (fst (Create c recipient params)) = 1)
   \<and> (RequestNil c MethodDelete (path @ ''/'' @ id') None = Some e
      \<longrightarrow> snd (Delete c id') = Some e \<and> length (fst (Delete c id')) = 1)
   \<and> (fst (RequestVerify c zeroVerify MethodGet (path @ ''/'' @ id') None) = Some e
      \<longrightarrow> snd (Read c id') = Inl e \<and> length (fst (Read c id')) = 1)
   \<and> (fst (RequestVerify c zeroVerify MethodGet
             (path @ ''/'' @ id' @ ''?'' @ Values_Encode [(''token'', token)]) None) = Some e
      \<longrightarrow> snd (VerifyToken c id' token) = Inl e
          \<and> length (fst (VerifyToken c id' token)) = 1)
   \<and> (fst (RequestVerifyMessage c zeroVerifyMessage MethodGet
             (emailMessagesPath @ ''/'' @ id') None) = Some e
      \<longrightarrow> snd (ReadVerifyEmailMessage c id') = Inl e
          \<and> length (fst (ReadVerifyEmailMessage c id')) = 1)"
  by (auto simp: Create_def Delete_def Read_def VerifyToken_def ReadVerifyEmailMessage_def
      Request_Verify_def Request_VerifyMessage_def Request_Nil_def Let_def
      split: prod.splits option.splits)

theorem transport_error_unchanged_witness:
  "Create (failingClient (errorString ''timeout'')) ''31612345678'' None =
     ([\<lparr>verb = ''POST'', resource = ''verify'',
        body = Some \<lparr>verifyRequest.Recipient = ''31612345678'', Originator = '''',
                 Reference = '''', Type = '''', Template = '''', DataCoding = '''',
                 ReportURL = '''', Voice = '''', Language = '''', Timeout = 0,
                 TokenLength = 0, Subject = ''''\<rparr>\<rparr>],
      Inl (errorString ''timeout''))
   \<and> Delete (failingClient (errorString ''timeout'')) ''abc'' =
     ([\<lparr>verb = ''DELETE'', resource = ''verify/abc'', body = None\<rparr>],
      Some (errorString ''timeout''))
   \<and> Read (failingClient (errorString ''timeout'')) ''abc'' =
     ([\<lparr>verb = ''GET'', resource = ''verify/abc'', body = None\<rparr>],
      Inl (errorString ''timeout''))
   \<and> VerifyToken (failingClient (errorString ''timeout'')) ''abc'' ''1234'' =
     ([\<lparr>verb = ''GET'', resource = ''verify/abc?token=1234'', body = None\<rparr>],
      Inl (errorString ''timeout''))
   \<and> ReadVerifyEmailMessage (failingClient (errorString ''timeout'')) ''abc'' =
     ([\<lparr>verb = ''GET'', resource = ''verify/messages/email/abc'', body = None\<rparr>],
      Inl (errorString ''timeout''))"
proof -
  let ?e = "errorString ''timeout''"
  let ?c = "failingClient ?e"
  let ?rd = "\<lparr>verifyRequest.Recipient = ''31612345678'', Originator = '''',
     Reference = '''', Type = '''', Template = '''', DataCoding = '''',
     ReportURL = '''', Voice = '''', Language = '''', Timeout = 0,
     TokenLength = 0, Subject = ''''\<rparr>"
  have rd: "requestDataForVerify ''31612345678'' None = Inr ?rd"
    by (simp add: requestDataForVerify_def)
  have fails:
    "fst (RequestVerify ?c v m p d) = Some ?e"
    "RequestNil ?c m p d = Some ?e"
    "fst (RequestVerifyMessage ?c vm m p d) = Some ?e" for v vm m p d
    by (simp_all add: failingClient_def)
  note t = transport_error_unchanged
    [of "''31612345678''" None ?rd ?c ?e "''abc''" "''1234''"]
  from t rd fails have results:
    "snd (Create ?c ''31612345678'' None) = Inl ?e"
    "snd (Delete ?c ''abc'') = Some ?e"
    "snd (Read ?c ''abc'') = Inl ?e"
    "snd (VerifyToken ?c ''abc'' ''1234'') = Inl ?e"
    "snd (ReadVerifyEmailMessage ?c ''abc'') = Inl ?e"
    by simp_all
  have sent:
    "fst (Create ?c ''31612345678'' None) =
       [\<lparr>verb = ''POST'', resource = ''verify'', body = Some ?rd\<rparr>]"
    "fst (Delete ?c ''abc'') = [\<lparr>verb = ''DELETE'', resource = ''verify/abc'', body = None\<rparr>]"
    "fst (Read ?c ''abc'') = [\<lparr>verb = ''GET'', resource = ''verify/abc'', body = None\<rparr>]"
    "fst (VerifyToken ?c ''abc'' ''1234'') =
       [\<lparr>verb = ''GET'', resource = ''verify/abc?token=1234'', body = None\<rparr>]"
    "fst (ReadVerifyEmailMessage ?c ''abc'') =
       [\<lparr>verb = ''GET'', resource = ''verify/messages/email/abc'', body = None\<rparr>]"
    by (simp_all add: Create_def Delete_def Read_def VerifyToken_def
        ReadVerifyEmailMessage_def Request_Verify_def Request_VerifyMessage_def
        Request_Nil_def rd Let_def MethodPost_def MethodGet_def MethodDelete_def
        path_def emailMessagesPath_def QueryEscape_def escapeByte_def shouldEscape_def
        unreserved_def failingClient_def)
  from results sent show ?thesis
    by (simp add: prod_eq_iff)
qed

section \<open>Properties of the decoder\<close>

text \<open>
  C4. On a nil receiver \<^verbatim>\<open>UnmarshalJSON\<close> returns the error ``cannot unmarshal
  to nil pointer'' for every byte slice, well-formed or not, and whatever the
  \<^verbatim>\<open>time\<close> package does: the slice is not read and nothing is stored.
\<close>

theorem UnmarshalJSON_nil_receiver:
  "UnmarshalJSON unmarshalTime None b = Inl (errorString ''cannot unmarshal to nil pointer'')"
  by (simp add: UnmarshalJSON_def errors_New_def)

subsection \<open>Powers of two and the leading bit\<close>

lemma pow2_powi: "pow2 e = 2 powi e"
  by (simp add: pow2_def power_int_def field_simps)

lemma pow10_powi: "pow10 e = 10 powi e"
  by (simp add: pow10_def power_int_def field_simps)

lemma pow2_pos: "0 < pow2 e"
  by (simp add: pow2_powi)

lemma pow10_pos: "0 < pow10 e"
  by (simp add: pow10_powi)

lemma pow2_add: "pow2 (a + b) = pow2 a * pow2 b"
  by (simp add: pow2_powi power_int_add)

lemma pow2_mono: "a \<le> b \<Longrightarrow> pow2 a \<le> pow2 b"
  by (simp add: pow2_powi power_int_increasing)

lemma pow2_diff: "pow2 (a - b) = pow2 a / pow2 b"
  by (simp add: pow2_powi power_int_diff)

lemma pow2_one: "pow2 1 = 2"
  by (simp add: pow2_def)

lemma pow2_Suc: "pow2 (a + 1) = 2 * pow2 a"
  by (simp only: pow2_add pow2_one mult.commute)

lemma pow2_less_cancel: "pow2 a < pow2 b \<Longrightarrow> a < b"
proof (rule ccontr)
  assume "pow2 a < pow2 b" and "\<not> a < b"
  then show False using pow2_mono [of b a] by simp
qed

lemma pow2_nat: "0 \<le> e \<Longrightarrow> pow2 e = 2 ^ nat e"
  by (simp add: pow2_def)

lemma bitlen_pow2_bounds:
  assumes "0 < a"
  shows "pow2 (bitlen a - 1) \<le> of_int a" and "of_int a < pow2 (bitlen a)"
proof -
  from assms have pos: "1 \<le> bitlen a"
    using bitlen_eq_zero_iff [of a] bitlen_nonneg [of a] by linarith
  from bitlen_bounds [OF assms]
  have lo: "2 ^ nat (bitlen a - 1) \<le> a" and hi: "a < 2 ^ nat (bitlen a)"
    by simp_all
  have "(of_int (2 ^ nat (bitlen a - 1)) :: rat) \<le> of_int a"
    using lo by (simp only: of_int_le_iff)
  then show "pow2 (bitlen a - 1) \<le> of_int a"
    using pos by (simp add: pow2_def)
  have "(of_int a :: rat) < of_int (2 ^ nat (bitlen a))"
    using hi by (simp only: of_int_less_iff)
  then show "of_int a < pow2 (bitlen a)"
    using pos by (simp add: pow2_def)
qed

lemma log2floor_bounds:
  assumes "0 < q"
  shows "pow2 (log2floor q) \<le> q \<and> q < pow2 (log2floor q + 1)"
proof -
  obtain a b where ab: "quotient_of q = (a, b)"
    by (cases "quotient_of q")
  then have b: "0 < b" and q: "q = of_int a / of_int b"
    by (simp_all add: quotient_of_denom_pos quotient_of_div)
  from assms q b have a: "0 < a"
    by (simp add: zero_less_divide_iff)
  define d where "d = bitlen a - bitlen b"
  have up: "q < pow2 (d + 1)"
  proof -
    have "q < pow2 (bitlen a) / of_int b"
      unfolding q using bitlen_pow2_bounds(2) [OF a] b by (simp add: divide_strict_right_mono)
    also have "\<dots> \<le> pow2 (bitlen a) / pow2 (bitlen b - 1)"
      using bitlen_pow2_bounds(1) [OF b] pow2_pos [of "bitlen b - 1"] pow2_pos [of "bitlen a"]
      by (simp add: frac_le)
    also have "\<dots> = pow2 (d + 1)"
      by (simp add: d_def pow2_Suc pow2_diff pow2_one)
    finally show ?thesis .
  qed
  have low: "pow2 (d - 1) < q"
  proof -
    have "d - 1 = (bitlen a - 1) - bitlen b"
      by (simp add: d_def)
    then have "pow2 (d - 1) = pow2 (bitlen a - 1) / pow2 (bitlen b)"
      by (simp only: pow2_diff)
    also have "\<dots> \<le> of_int a / pow2 (bitlen b)"
      using bitlen_pow2_bounds(1) [OF a] pow2_pos [of "bitlen b"]
      by (simp add: divide_right_mono)
    also have "\<dots> < of_int a / of_int b"
      using bitlen_pow2_bounds(2) [OF b] a b
      by (simp add: divide_strict_left_mono)
    finally show ?thesis by (simp add: q)
  qed
  show ?thesis
  proof (cases "pow2 d \<le> q")
    case True
    then have "log2floor q = d"
      by (simp add: log2floor_def ab d_def)
    with True up show ?thesis by simp
  next
    case False
    then have "log2floor q = d - 1"
      by (simp add: log2floor_def ab d_def)
    with False low show ?thesis by simp
  qed
qed

lemma log2floor_unique:
  assumes "pow2 l \<le> q" and "q < pow2 (l + 1)"
  shows "log2floor q = l"
proof -
  have q: "0 < q" using assms(1) pow2_pos [of l] by simp
  from log2floor_bounds [OF q]
  have b1: "pow2 (log2floor q) \<le> q" and b2: "q < pow2 (log2floor q + 1)" by simp_all
  have "pow2 l < pow2 (log2floor q + 1)" using assms(1) b2 by simp
  then have "l < log2floor q + 1"
    by (rule pow2_less_cancel)
  moreover have "pow2 (log2floor q) < pow2 (l + 1)" using assms(2) b1 by simp
  then have "log2floor q < l + 1"
    by (rule pow2_less_cancel)
  ultimately show ?thesis by simp
qed

lemma pow2_less_mono: "a < b \<Longrightarrow> pow2 a < pow2 b"
  by (simp add: pow2_powi power_int_strict_increasing)

lemma pow10_nat: "pow10 (int k) = 10 ^ k"
  by (simp add: pow10_def)

lemma roundHalfEven_of_int: "roundHalfEven (of_int z) = z"
  by (simp add: roundHalfEven_def)

lemma roundHalfEven_ge_floor: "\<lfloor>x\<rfloor> \<le> roundHalfEven x"
  by (simp add: roundHalfEven_def Let_def)

lemma roundHalfEven_nonneg: "0 \<le> x \<Longrightarrow> 0 \<le> roundHalfEven x"
  using roundHalfEven_ge_floor [of x] by (simp add: order_trans [of 0 "\<lfloor>x\<rfloor>"])

lemma nearest64_exact:
  assumes "0 \<le> n" and "n < 2 ^ 53"
  shows "nearest64 (of_int n) = of_int n"
proof (cases "n = 0")
  case True
  then show ?thesis by (simp add: nearest64_def)
next
  case False
  with assms have pos: "0 < (of_int n :: rat)" by simp
  define l where "l = log2floor (of_int n)"
  define e where "e = max (l - 52) (- 1074)"
  from log2floor_bounds [OF pos] have "pow2 l \<le> of_int n" by (simp add: l_def)
  also have "(of_int n :: rat) < pow2 53"
  proof -
    have "(of_int n :: rat) < of_int (2 ^ 53)" using assms(2) by (simp only: of_int_less_iff)
    then show ?thesis by (simp add: pow2_def)
  qed
  finally have "l < 53" by (rule pow2_less_cancel)
  then have e: "e \<le> 0" by (simp add: e_def)
  have "pow2 e * pow2 (- e) = 1"
    using pow2_add [of e "- e"] by (simp add: pow2_def)
  moreover have "pow2 (- e) = of_int (2 ^ nat (- e))"
    using e by (simp add: pow2_def)
  ultimately have inv: "1 / pow2 e = of_int (2 ^ nat (- e))"
    using pow2_pos [of e] by (simp add: field_simps)
  have "of_int n / pow2 e = of_int n * (1 / pow2 e)" by simp
  also have "\<dots> = of_int (n * 2 ^ nat (- e))" by (simp only: inv of_int_mult)
  finally have "roundHalfEven (of_int n / pow2 e) = n * 2 ^ nat (- e)"
    by (simp only: roundHalfEven_of_int)
  then have "of_int (roundHalfEven (of_int n / pow2 e)) * pow2 e
      = of_int n * (of_int (2 ^ nat (- e)) * pow2 e)"
    by simp
  also have "of_int (2 ^ nat (- e)) * pow2 e = (1 :: rat)"
    using inv pow2_pos [of e] by (simp add: field_simps)
  finally show ?thesis
    using pos by (simp add: nearest64_def lastPlace_def Let_def l_def e_def)
qed

lemma nearest64_ge_pow2:
  assumes "pow2 t \<le> q" and "- 1022 \<le> t"
  shows "pow2 t \<le> nearest64 q"
proof -
  have pos: "0 < q" using assms(1) pow2_pos [of t] by simp
  define l where "l = log2floor q"
  from log2floor_bounds [OF pos]
  have lo: "pow2 l \<le> q" and hi: "q < pow2 (l + 1)" by (simp_all add: l_def)
  from assms(1) hi have "pow2 t < pow2 (l + 1)" by simp
  then have tl: "t \<le> l" using pow2_less_cancel [of t "l + 1"] by simp
  with assms(2) have e: "max (l - 52) (- 1074) = l - 52" by simp
  have "pow2 52 = pow2 l / pow2 (l - 52)"
    using pow2_diff [of l "l - 52"] by simp
  also have "\<dots> \<le> q / pow2 (l - 52)"
    using lo pow2_pos [of "l - 52"] by (simp add: divide_right_mono)
  finally have "(of_int (2 ^ 52) :: rat) \<le> q / pow2 (l - 52)"
    by (simp add: pow2_def)
  then have "2 ^ 52 \<le> \<lfloor>q / pow2 (l - 52)\<rfloor>"
    by (simp only: le_floor_iff)
  with roundHalfEven_ge_floor [of "q / pow2 (l - 52)"]
  have "2 ^ 52 \<le> roundHalfEven (q / pow2 (l - 52))" by linarith
  then have "(of_int (2 ^ 52) :: rat) \<le> of_int (roundHalfEven (q / pow2 (l - 52)))"
    by (simp only: of_int_le_iff)
  then have "pow2 52 * pow2 (l - 52) \<le> of_int (roundHalfEven (q / pow2 (l - 52))) * pow2 (l - 52)"
    using pow2_pos [of "l - 52"] by (simp add: pow2_def)
  moreover have "pow2 52 * pow2 (l - 52) = pow2 l"
    using pow2_add [of 52 "l - 52"] by simp
  ultimately have "pow2 l \<le> nearest64 q"
    using pos by (simp add: nearest64_def lastPlace_def Let_def l_def [symmetric] e)
  with pow2_mono [OF tl] show ?thesis by simp
qed

lemma digitChar_code: "0 \<le> d \<Longrightarrow> d < 10 \<Longrightarrow> (of_char (digitChar d) :: int) = 48 + d"
  by (simp add: digitChar_def)

lemma digitChar_isDigit: "0 \<le> d \<Longrightarrow> d < 10 \<Longrightarrow> isDigit (digitChar d)"
  by (simp add: isDigit_def digitChar_code)

lemma digitChar_0: "digitChar 0 = CHR ''0''"
proof (rule of_char_eqI)
  show "(of_char (digitChar 0) :: int) = of_char CHR ''0''"
    by (simp add: digitChar_def)
qed

lemma decimal_not_Nil: "decimal n \<noteq> []"
  by (subst decimal.simps) simp

lemma decimal_digits: "0 \<le> n \<Longrightarrow> list_all isDigit (decimal n)"
proof (induction n rule: decimal.induct)
  case (1 n)
  show ?case
  proof (cases "n < 10")
    case True
    with 1(2) show ?thesis
      by (subst decimal.simps) (simp add: digitChar_isDigit)
  next
    case False
    with 1 have "list_all isDigit (decimal (n div 10))" by simp
    moreover have "isDigit (digitChar (n mod 10))"
      by (rule digitChar_isDigit) simp_all
    ultimately show ?thesis
      using False by (subst decimal.simps) simp
  qed
qed

lemma intOfDigits_Nil: "intOfDigits [] = 0"
  by (simp add: intOfDigits_def)

lemma intOfDigits_snoc: "intOfDigits (ds @ [c]) = 10 * intOfDigits ds + (of_char c - 48)"
  by (simp add: intOfDigits_def)

lemma intOfDigits_decimal: "0 \<le> n \<Longrightarrow> intOfDigits (decimal n) = n"
proof (induction n rule: decimal.induct)
  case (1 n)
  show ?case
  proof (cases "n < 10")
    case True
    with 1(2) show ?thesis
      by (subst decimal.simps) (simp add: intOfDigits_def digitChar_code)
  next
    case False
    with 1 have "intOfDigits (decimal (n div 10)) = n div 10" by simp
    moreover have "(of_char (digitChar (n mod 10)) :: int) = 48 + n mod 10"
      by (rule digitChar_code) simp_all
    ultimately show ?thesis
      using False by (subst decimal.simps) (simp add: intOfDigits_snoc)
  qed
qed

lemma decimal_times_10: "0 < d \<Longrightarrow> decimal (d * 10) = decimal d @ ''0''"
  by (subst decimal.simps) (simp add: digitChar_0)

lemma decimal_times_pow10: "0 < d \<Longrightarrow> decimal (d * 10 ^ k) = decimal d @ replicate k CHR ''0''"
proof (induction k)
  case 0
  then show ?case by simp
next
  case (Suc k)
  have "d * 10 ^ Suc k = (d * 10 ^ k) * 10"
    by simp
  then have "decimal (d * 10 ^ Suc k) = decimal ((d * 10 ^ k) * 10)"
    by (simp only:)
  also have "\<dots> = decimal (d * 10 ^ k) @ ''0''"
    using Suc.prems by (intro decimal_times_10) simp
  also have "\<dots> = decimal d @ replicate (Suc k) CHR ''0''"
    using Suc by (simp add: replicate_append_same)
  finally show ?case .
qed

lemma readFloat_decimal:
  assumes "0 \<le> n"
  shows "readFloat (decimal n) = Some (False, of_int n)"
    and "readFloat (CHR ''-'' # decimal n) = Some (True, of_int n)"
proof -
  have all: "list_all isDigit (decimal n)" by (rule decimal_digits [OF assms])
  have ne: "decimal n \<noteq> []" by (rule decimal_not_Nil)
  have tw: "takeWhile isDigit (decimal n) = decimal n"
    using all by (simp add: takeWhile_eq_all_conv list_all_iff)
  have dw: "dropWhile isDigit (decimal n) = []"
    using all by (simp add: dropWhile_eq_Nil_conv list_all_iff)
  have "isDigit (hd (decimal n))"
    using all ne by (cases "decimal n") simp_all
  then have hd: "hd (decimal n) \<noteq> CHR ''-''"
    by (auto simp: isDigit_def)
  show "readFloat (decimal n) = Some (False, of_int n)"
    using ne hd
    by (simp add: readFloat_def Let_def tw dw readExponent_def intOfDigits_decimal [OF assms]
        intOfDigits_Nil pow10_def)
  show "readFloat (CHR ''-'' # decimal n) = Some (True, of_int n)"
    using ne
    by (simp add: readFloat_def Let_def tw dw readExponent_def intOfDigits_decimal [OF assms]
        intOfDigits_Nil pow10_def)
qed

lemma pow2_numeral_53: "pow2 53 = of_int (2 ^ 53)"
  by (simp add: pow2_def)

lemma ParseFloat_decimal:
  assumes "0 \<le> n" and "n < 2 ^ 53"
  shows "ParseFloat (decimal n) = Inr \<lparr>negative = False, magnitude = of_int n\<rparr>"
    and "ParseFloat (CHR ''-'' # decimal n) = Inr \<lparr>negative = True, magnitude = of_int n\<rparr>"
proof -
  have "(of_int n :: rat) < of_int (2 ^ 53)"
    using assms(2) by (simp only: of_int_less_iff)
  also have "\<dots> = pow2 53" by (simp add: pow2_def)
  also have "\<dots> < pow2 1024" by (rule pow2_less_mono) simp
  finally have small: "\<not> pow2 1024 \<le> nearest64 (of_int n)"
    by (simp add: nearest64_exact [OF assms])
  show "ParseFloat (decimal n) = Inr \<lparr>negative = False, magnitude = of_int n\<rparr>"
    using small by (simp add: ParseFloat_def readFloat_decimal [OF assms(1)] Let_def
        nearest64_exact [OF assms])
  show "ParseFloat (CHR ''-'' # decimal n) = Inr \<lparr>negative = True, magnitude = of_int n\<rparr>"
    using small by (simp add: ParseFloat_def readFloat_decimal [OF assms(1)] Let_def
        nearest64_exact [OF assms])
qed

lemma floor_int_div_pow10: "\<lfloor>(of_int n :: rat) / pow10 (int k)\<rfloor> = n div 10 ^ k"
proof -
  have "(of_int n :: rat) / pow10 (int k) = of_int n / of_int (10 ^ k)"
    by (simp add: pow10_nat)
  then show ?thesis
    by (simp only: floor_divide_of_int_eq)
qed

lemma integer_candidates:
  assumes "0 < n" and "n < 2 ^ 53"
  shows "(nearest64 (of_int (n div 10 ^ k) * pow10 (int k)) = of_int n) = (10 ^ k dvd n)"
    and "nearest64 (of_int (n div 10 ^ k + 1) * pow10 (int k)) \<noteq> of_int n"
proof -
  have p: "(0 :: int) < 10 ^ k" by simp
  let ?down = "n div 10 ^ k * 10 ^ k"
  let ?up = "(n div 10 ^ k + 1) * 10 ^ k"
  have split: "?down + n mod 10 ^ k = n" by (rule div_mult_mod_eq)
  have "0 \<le> n mod 10 ^ k" using p by simp
  with split have down_le: "?down \<le> n" by linarith
  have down_ge: "0 \<le> ?down"
    using assms(1) p by (simp add: pos_imp_zdiv_nonneg_iff)
  have "nearest64 (of_int ?down) = of_int ?down"
    using down_ge down_le assms(2) by (intro nearest64_exact) simp_all
  then have "(nearest64 (of_int ?down) = (of_int n :: rat)) = (?down = n)"
    by (simp only: of_int_eq_iff)
  also have "\<dots> = (10 ^ k dvd n)"
    by (metis dvd_div_mult_self dvd_triv_right)
  finally show "(nearest64 (of_int (n div 10 ^ k) * pow10 (int k)) = of_int n) = (10 ^ k dvd n)"
    by (simp add: pow10_nat)
  have up_gt: "n < ?up"
  proof -
    have "n = ?down + n mod 10 ^ k" by (rule split [symmetric])
    also have "\<dots> < ?down + 10 ^ k" using p by simp
    also have "\<dots> = ?up" by (simp add: algebra_simps)
    finally show ?thesis .
  qed
  have "nearest64 (of_int ?up) \<noteq> of_int n"
  proof (cases "?up < 2 ^ 53")
    case True
    have "nearest64 (of_int ?up) = of_int ?up"
      using True up_gt assms(1) by (intro nearest64_exact) simp_all
    with up_gt show ?thesis by (simp only: of_int_eq_iff)
  next
    case False
    then have "(of_int (2 ^ 53) :: rat) \<le> of_int ?up"
      by (simp only: of_int_le_iff not_less)
    then have "pow2 53 \<le> of_int ?up" by (simp add: pow2_def)
    then have "pow2 53 \<le> nearest64 (of_int ?up)"
      by (rule nearest64_ge_pow2) simp
    moreover have "(of_int n :: rat) < of_int (2 ^ 53)"
      using assms(2) by (simp only: of_int_less_iff)
    then have "(of_int n :: rat) < pow2 53" by (simp add: pow2_def)
    ultimately show ?thesis by simp
  qed
  then show "nearest64 (of_int (n div 10 ^ k + 1) * pow10 (int k)) \<noteq> of_int n"
    by (simp add: pow10_nat)
qed

lemma shortest_integer:
  assumes "0 < n" and "n < 2 ^ 53" and "kmin \<le> 0" and "0 \<le> kmin + int j"
  shows "\<exists>d k. shortest (of_int n) kmin j = (d, int k) \<and> 0 < d \<and> d * 10 ^ k = n"
  using assms(4)
proof (induction j)
  case 0
  with assms(3) have kmin: "kmin = 0" by simp
  have "shortest (of_int n) kmin 0 = (n, int 0)"
    unfolding kmin by (simp add: pow10_def)
  with assms(1) show ?case by (intro exI [of _ n] exI [of _ 0]) (simp add: pow10_def)
next
  case (Suc j)
  define k where "k = nat (kmin + int (Suc j))"
  from Suc.prems have k: "kmin + int (Suc j) = int k" by (simp add: k_def)
  note cand = integer_candidates [OF assms(1,2), of k]
  note fl = floor_int_div_pow10 [of n k]
  have step: "shortest (of_int n) kmin (Suc j) =
     (let down = \<lfloor>(of_int n :: rat) / pow10 (int k)\<rfloor>;
          up = down + 1;
          okdown = (nearest64 (of_int down * pow10 (int k)) = of_int n);
          okup = (nearest64 (of_int up * pow10 (int k)) = of_int n)
      in if okdown \<and> okup then (roundHalfEven (of_int n / pow10 (int k)), int k)
         else if okdown then (down, int k)
         else if okup then (up, int k)
         else shortest (of_int n) kmin j)"
    by (simp only: shortest.simps k Let_def readsBack_def)
  show ?case
  proof (cases "10 ^ k dvd n")
    case True
    then have "shortest (of_int n) kmin (Suc j) = (n div 10 ^ k, int k)"
      using cand unfolding step by (simp add: fl Let_def del: shortest.simps)
    moreover have whole: "n div 10 ^ k * 10 ^ k = n"
      using True by simp
    moreover have "0 < n div 10 ^ k"
    proof -
      have "0 < n div 10 ^ k * 10 ^ k" using whole assms(1) by simp
      moreover have "(0 :: int) < 10 ^ k" by simp
      ultimately show ?thesis by (rule zero_less_mult_pos2)
    qed
    ultimately show ?thesis by blast
  next
    case False
    then have "k \<noteq> 0" by (cases k) simp_all
    with k have "0 \<le> kmin + int j" by simp
    from Suc.IH [OF this] False cand show ?thesis
      unfolding step by (simp add: fl Let_def del: shortest.simps)
  qed
qed

lemma roundShortest_integer:
  assumes "0 < n" and "n < 2 ^ 53"
  shows "\<exists>d k. roundShortest (of_int n) = (d, int k) \<and> 0 < d \<and> d * 10 ^ k = n"
proof -
  define kmin where "kmin = min (lastPlace (of_int n)) 0"
  define top where "top = int (length (decimal \<lfloor>(of_int n :: rat)\<rfloor>)) + 1"
  have kmin: "kmin \<le> 0" by (simp add: kmin_def)
  have "0 \<le> top" by (simp add: top_def)
  with kmin have "0 \<le> kmin + int (nat (top - kmin))" by simp
  from shortest_integer [OF assms kmin this]
  show ?thesis
    by (simp add: roundShortest_def Let_def kmin_def top_def)
qed

lemma isDigit_0: "isDigit CHR ''0''"
  by (simp add: isDigit_def)

lemma fmtF_integer:
  assumes "ds \<noteq> []"
  shows "fmtF neg ds (int (length ds) + int k) =
           (if neg then ''-'' else '''') @ ds @ replicate k CHR ''0''"
proof -
  from assms have "0 < length ds" by simp
  then have "0 < int (length ds) + int k" by linarith
  then show ?thesis by (simp add: fmtF_def Let_def)
qed

lemma decimal_0: "decimal 0 = ''0''"
  by (subst decimal.simps) (simp add: digitChar_0)

lemma FormatFloat_integer:
  assumes "0 \<le> n" and "n < 2 ^ 53"
  shows "FormatFloat \<lparr>negative = neg, magnitude = of_int n\<rparr> =
           (if neg then ''-'' else '''') @ decimal n"
proof (cases "n = 0")
  case True
  then show ?thesis
    by (simp add: FormatFloat_def fmtF_def decimal_0)
next
  case False
  with assms have pos: "0 < n" by simp
  from roundShortest_integer [OF pos assms(2)]
  obtain d k where r: "roundShortest (of_int n) = (d, int k)" and d: "0 < d"
    and n: "d * 10 ^ k = n"
    by blast
  have "decimal n = decimal d @ replicate k CHR ''0''"
    using decimal_times_pow10 [OF d, of k] n by simp
  then show ?thesis
    using False by (simp add: FormatFloat_def r Let_def fmtF_integer [OF decimal_not_Nil])
qed

lemma fmtF_chars:
  assumes "list_all isDigit ds" and "c \<in> set (fmtF neg ds dp)"
  shows "isDigit c \<or> c = CHR ''.'' \<or> c = CHR ''-''"
proof -
  have ds: "x \<in> set ds \<Longrightarrow> isDigit x" for x
    using assms(1) by (simp add: list_all_iff)
  have tk: "x \<in> set (take m ds) \<Longrightarrow> isDigit x" for x m
    using ds in_set_takeD by fastforce
  from assms(2) show ?thesis
    by (auto simp: fmtF_def Let_def isDigit_0 split: if_splits dest: tk intro: ds)
qed

lemma nearest64_nonneg: "0 \<le> nearest64 q"
proof (cases "q \<le> 0")
  case True
  then show ?thesis by (simp add: nearest64_def)
next
  case False
  define e where "e = lastPlace q"
  have "0 \<le> q / pow2 e" using False pow2_pos [of e] by simp
  then have "0 \<le> roundHalfEven (q / pow2 e)" by (rule roundHalfEven_nonneg)
  then show ?thesis
    using False pow2_pos [of e] by (simp add: nearest64_def Let_def e_def)
qed

lemma shortest_nonneg: "0 \<le> x \<Longrightarrow> 0 \<le> fst (shortest x kmin j)"
proof (induction j)
  case 0
  have "0 \<le> x / pow10 kmin" using 0 pow10_pos [of kmin] by simp
  then show ?case by simp
next
  case (Suc j)
  define k where "k = kmin + int (Suc j)"
  have nn: "0 \<le> x / pow10 k" using Suc.prems pow10_pos [of k] by simp
  then have "0 \<le> \<lfloor>x / pow10 k\<rfloor>" by simp
  moreover have "0 \<le> roundHalfEven (x / pow10 k)" using nn by (rule roundHalfEven_nonneg)
  ultimately show ?case
    using Suc by (simp add: Let_def k_def)
qed

lemma FormatFloat_chars:
  assumes "0 \<le> magnitude f" and "c \<in> set (FormatFloat f)"
  shows "isDigit c \<or> c = CHR ''.'' \<or> c = CHR ''-''"
proof (cases "magnitude f = 0")
  case True
  with assms(2) have "c \<in> set (fmtF (negative f) [] 0)" by (simp add: FormatFloat_def)
  then show ?thesis by (rule fmtF_chars [rotated]) simp
next
  case False
  obtain d k where r: "roundShortest (magnitude f) = (d, k)"
    by (cases "roundShortest (magnitude f)")
  have "0 \<le> fst (roundShortest (magnitude f))"
    unfolding roundShortest_def Let_def by (rule shortest_nonneg [OF assms(1)])
  with r have "0 \<le> d" by simp
  then have "list_all isDigit (decimal d)" by (rule decimal_digits)
  moreover from assms(2) False r
  have "c \<in> set (fmtF (negative f) (decimal d) (int (length (decimal d)) + k))"
    by (simp add: FormatFloat_def Let_def)
  ultimately show ?thesis by (rule fmtF_chars)
qed

lemma ParseFloat_nonneg: "ParseFloat s = Inr f \<Longrightarrow> 0 \<le> magnitude f"
  by (auto simp: ParseFloat_def Let_def nearest64_nonneg split: option.splits if_splits)

subsection \<open>The binary64 grid and the shortest digits\<close>

lemma roundHalfEven_cases: "roundHalfEven x = \<lfloor>x\<rfloor> \<or> roundHalfEven x = \<lfloor>x\<rfloor> + 1"
  by (simp add: roundHalfEven_def Let_def)

lemma roundHalfEven_le: "x \<le> of_int z \<Longrightarrow> roundHalfEven x \<le> z"
proof -
  assume le: "x \<le> of_int z"
  show ?thesis
  proof (cases "x = of_int z")
    case True
    then show ?thesis by (simp add: roundHalfEven_of_int)
  next
    case False
    with le have "x < of_int z" by simp
    then have "\<lfloor>x\<rfloor> < z" by (simp add: floor_less_iff)
    with roundHalfEven_cases [of x] show ?thesis by auto
  qed
qed

lemma nearest64_pos_eq:
  "0 < q \<Longrightarrow> nearest64 q = of_int (roundHalfEven (q / pow2 (lastPlace q))) * pow2 (lastPlace q)"
  by (simp add: nearest64_def Let_def)

lemma lastPlace_ge: "- 1074 \<le> lastPlace q"
  by (simp add: lastPlace_def)

text \<open>The significand of the rounded value: at most 2^53, and at least 2^52 unless subnormal.\<close>

lemma significand_bounds:
  assumes "0 < q"
  defines "M \<equiv> roundHalfEven (q / pow2 (lastPlace q))"
  shows "0 \<le> M" and "M \<le> 2 ^ 53" and "lastPlace q \<noteq> - 1074 \<Longrightarrow> 2 ^ 52 \<le> M"
proof -
  define l where "l = log2floor q"
  define e where "e = lastPlace q"
  from log2floor_bounds [OF assms(1)]
  have lo: "pow2 l \<le> q" and hi: "q < pow2 (l + 1)" by (simp_all add: l_def)
  have e_ge: "l - 52 \<le> e" by (simp add: e_def lastPlace_def l_def)
  have "0 \<le> q / pow2 e" using assms(1) pow2_pos [of e] by simp
  then show "0 \<le> M" unfolding M_def e_def [symmetric] by (rule roundHalfEven_nonneg)
  have "q / pow2 e < pow2 (l + 1) / pow2 e"
    using hi pow2_pos [of e] by (simp add: divide_strict_right_mono)
  also have "\<dots> = pow2 (l + 1 - e)" by (simp add: pow2_diff)
  also have "\<dots> \<le> pow2 53" using e_ge by (intro pow2_mono) simp
  also have "\<dots> = of_int (2 ^ 53)" by (simp add: pow2_def)
  finally have "q / pow2 e \<le> of_int (2 ^ 53)" by simp
  then show "M \<le> 2 ^ 53" unfolding M_def e_def [symmetric] by (rule roundHalfEven_le)
  show "2 ^ 52 \<le> M" if "lastPlace q \<noteq> - 1074"
  proof -
    from that have e: "e = l - 52" by (simp add: e_def lastPlace_def l_def split: if_splits)
    have "pow2 52 = pow2 l / pow2 e" by (simp add: e pow2_diff [symmetric])
    also have "\<dots> \<le> q / pow2 e" using lo pow2_pos [of e] by (simp add: divide_right_mono)
    finally have "(of_int (2 ^ 52) :: rat) \<le> q / pow2 e" by (simp add: pow2_def)
    then have "2 ^ 52 \<le> \<lfloor>q / pow2 e\<rfloor>" by (simp only: le_floor_iff)
    with roundHalfEven_ge_floor [of "q / pow2 e"] show ?thesis
      unfolding M_def e_def [symmetric] by linarith
  qed
qed

text \<open>A value on the binary64 grid, given by a significand and an exponent.\<close>

lemma lastPlace_grid:
  assumes "0 < M" and "M \<le> 2 ^ 53" and "- 1074 \<le> E" and "E \<noteq> - 1074 \<Longrightarrow> 2 ^ 52 \<le> M"
  shows "lastPlace (of_int M * pow2 E) = (if M = 2 ^ 53 then E + 1 else E)"
proof -
  let ?x = "of_int M * pow2 E :: rat"
  show ?thesis
  proof (cases "M = 2 ^ 53")
    case True
    have "?x = pow2 53 * pow2 E" by (simp add: True pow2_def)
    also have "\<dots> = pow2 (E + 53)" by (simp add: pow2_add [symmetric] add.commute)
    finally have x: "?x = pow2 (E + 53)" .
    have "log2floor ?x = E + 53"
      unfolding x by (rule log2floor_unique) (simp_all add: pow2_less_mono)
    with assms(3) True show ?thesis by (simp add: lastPlace_def)
  next
    case False
    with assms(2) have M: "M < 2 ^ 53" by simp
    then have "(of_int M :: rat) < of_int (2 ^ 53)" by (simp only: of_int_less_iff)
    then have "?x < pow2 53 * pow2 E" using pow2_pos [of E] by (simp add: pow2_def)
    also have "\<dots> = pow2 (E + 53)" by (simp add: pow2_add [symmetric] add.commute)
    finally have hi: "?x < pow2 (E + 53)" .
    show ?thesis
    proof (cases "2 ^ 52 \<le> M")
      case True
      then have "(of_int (2 ^ 52) :: rat) \<le> of_int M" by (simp only: of_int_le_iff)
      then have "pow2 52 * pow2 E \<le> ?x" using pow2_pos [of E] by (simp add: pow2_def)
      moreover have "pow2 52 * pow2 E = pow2 (E + 52)"
        by (simp add: pow2_add [symmetric] add.commute)
      ultimately have "pow2 (E + 52) \<le> ?x" by simp
      moreover have "?x < pow2 (E + 52 + 1)" using hi by (simp add: add.assoc)
      ultimately have "log2floor ?x = E + 52" by (rule log2floor_unique)
      with assms(3) False show ?thesis by (simp add: lastPlace_def)
    next
      case small: False
      with assms(4) have E: "E = - 1074" by auto
      from small have "(of_int M :: rat) < of_int (2 ^ 52)" by (simp only: of_int_less_iff not_le)
      then have "?x < pow2 52 * pow2 E" using pow2_pos [of E] by (simp add: pow2_def)
      also have "\<dots> = pow2 (E + 52)" by (simp add: pow2_add [symmetric] add.commute)
      finally have "?x < pow2 (- 1022)" by (simp add: E)
      moreover have "0 < ?x" using assms(1) pow2_pos [of E] by simp
      from log2floor_bounds [OF this] have "pow2 (log2floor ?x) \<le> ?x" by simp
      ultimately have "pow2 (log2floor ?x) < pow2 (- 1022)" by simp
      then have "log2floor ?x < - 1022" by (rule pow2_less_cancel)
      with False E show ?thesis by (simp add: lastPlace_def)
    qed
  qed
qed

lemma onGrid_0: "onGrid 0"
  by (simp add: onGrid_def)

lemma nearest64_onGrid: "onGrid (nearest64 q)"
proof (cases "0 < nearest64 q")
  case False
  with nearest64_nonneg [of q] have "nearest64 q = 0" by simp
  then show ?thesis by (simp add: onGrid_0)
next
  case True
  then have q: "0 < q" by (cases "0 < q") (simp_all add: nearest64_def)
  define E where "E = lastPlace q"
  define M where "M = roundHalfEven (q / pow2 E)"
  have x: "nearest64 q = of_int M * pow2 E"
    using q by (simp add: nearest64_pos_eq M_def E_def)
  from significand_bounds [OF q]
  have M0: "0 \<le> M" and M53: "M \<le> 2 ^ 53" and M52: "E \<noteq> - 1074 \<Longrightarrow> 2 ^ 52 \<le> M"
    by (simp_all add: M_def E_def)
  from True x M0 have Mpos: "0 < M"
    by (cases "M = 0") simp_all
  have E: "- 1074 \<le> E" by (simp add: E_def lastPlace_ge)
  note lp = lastPlace_grid [OF Mpos M53 E M52]
  show ?thesis
  proof (cases "M = 2 ^ 53")
    case False
    with lp have "lastPlace (nearest64 q) = E" by (simp add: x)
    then show ?thesis
      using pow2_pos [of E] by (simp add: onGrid_def x)
  next
    case big: True
    with lp have l: "lastPlace (nearest64 q) = E + 1" by (simp add: x)
    have "nearest64 q / pow2 (E + 1) = of_int (2 ^ 52)"
      using pow2_pos [of E] by (simp add: x big pow2_Suc)
    then show ?thesis
      unfolding onGrid_def l by (simp only: floor_of_int)
  qed
qed

lemma onGrid_fixed:
  assumes "0 \<le> x" and "onGrid x"
  shows "nearest64 x = x"
proof (cases "0 < x")
  case False
  with assms(1) show ?thesis by (simp add: nearest64_def)
next
  case True
  define y where "y = x / pow2 (lastPlace x)"
  from assms(2) have y: "of_int \<lfloor>y\<rfloor> = y"
    unfolding onGrid_def y_def .
  then have "roundHalfEven y = \<lfloor>y\<rfloor>"
    using roundHalfEven_of_int [of "\<lfloor>y\<rfloor>"] by (simp only:)
  then have "of_int (roundHalfEven y) * pow2 (lastPlace x) = y * pow2 (lastPlace x)"
    using y by (simp only:)
  also have "\<dots> = x"
    using pow2_pos [of "lastPlace x"] by (simp add: y_def)
  finally show ?thesis
    using True by (simp add: nearest64_pos_eq y_def)
qed

lemma nearest64_idem: "nearest64 (nearest64 q) = nearest64 q"
  by (rule onGrid_fixed [OF nearest64_nonneg nearest64_onGrid])

lemma pow2_pow10_neg: "pow2 (- int n) / pow10 (- int n) = of_int (5 ^ n)"
proof -
  have "pow2 (- int n) = 1 / 2 ^ n" by (simp add: pow2_def)
  moreover have "pow10 (- int n) = 1 / 10 ^ n" by (simp add: pow10_def)
  moreover have "(10 :: rat) ^ n = 2 ^ n * 5 ^ n"
    by (simp flip: power_mult_distrib)
  ultimately show ?thesis by simp
qed

lemma onGrid_digits:
  assumes "onGrid x"
  defines "kmin \<equiv> min (lastPlace x) 0"
  shows "of_int \<lfloor>x / pow10 kmin\<rfloor> = x / pow10 kmin"
proof -
  define e where "e = lastPlace x"
  define m where "m = \<lfloor>x / pow2 e\<rfloor>"
  from assms(1) have "of_int m = x / pow2 e"
    unfolding onGrid_def m_def e_def .
  then have x: "x = of_int m * pow2 e"
    using pow2_pos [of e] by (simp add: field_simps)
  show ?thesis
  proof (cases "0 \<le> e")
    case True
    then have "kmin = 0" by (simp add: kmin_def e_def)
    moreover have "x = of_int (m * 2 ^ nat e)"
      using True by (simp add: x pow2_def)
    ultimately show ?thesis by (simp add: pow10_def)
  next
    case False
    define n where "n = nat (- e)"
    from False have e: "e = - int n" by (simp add: n_def)
    from False have k: "kmin = - int n" by (simp add: kmin_def e_def [symmetric] e)
    have "x / pow10 kmin = of_int m * (pow2 (- int n) / pow10 (- int n))"
      by (simp add: x e k)
    also have "\<dots> = of_int (m * 5 ^ n)"
      by (simp only: pow2_pow10_neg of_int_mult)
    finally show ?thesis by (simp only: floor_of_int)
  qed
qed

lemma shortest_reads_back:
  assumes "0 \<le> x" and "onGrid x" and "of_int \<lfloor>x / pow10 kmin\<rfloor> = x / pow10 kmin"
  shows "nearest64 (of_int (fst (shortest x kmin j)) * pow10 (snd (shortest x kmin j))) = x"
proof (induction j)
  case 0
  have "of_int \<lfloor>x / pow10 kmin\<rfloor> * pow10 kmin = x"
    using pow10_pos [of kmin] by (simp add: assms(3))
  then show ?case
    using onGrid_fixed [OF assms(1,2)] by simp
next
  case (Suc j)
  define k where "k = kmin + int (Suc j)"
  define down where "down = \<lfloor>x / pow10 k\<rfloor>"
  have step: "shortest x kmin (Suc j) =
     (if nearest64 (of_int down * pow10 k) = x \<and> nearest64 (of_int (down + 1) * pow10 k) = x
        then (roundHalfEven (x / pow10 k), k)
      else if nearest64 (of_int down * pow10 k) = x then (down, k)
      else if nearest64 (of_int (down + 1) * pow10 k) = x then (down + 1, k)
      else shortest x kmin j)"
    by (simp only: shortest.simps Let_def k_def down_def readsBack_def)
  from roundHalfEven_cases [of "x / pow10 k"]
  have r: "roundHalfEven (x / pow10 k) = down \<or> roundHalfEven (x / pow10 k) = down + 1"
    by (simp add: down_def)
  show ?case
    unfolding step using Suc r by (auto simp del: shortest.simps)
qed

lemma roundShortest_reads_back:
  assumes "0 < x" and "onGrid x"
  shows "nearest64 (of_int (fst (roundShortest x)) * pow10 (snd (roundShortest x))) = x"
    and "0 < fst (roundShortest x)"
proof -
  have x0: "0 \<le> x" using assms(1) by simp
  show rb: "nearest64 (of_int (fst (roundShortest x)) * pow10 (snd (roundShortest x))) = x"
    unfolding roundShortest_def Let_def
    by (rule shortest_reads_back [OF x0 assms(2) onGrid_digits [OF assms(2)]])
  have "0 \<le> fst (roundShortest x)"
    unfolding roundShortest_def Let_def by (rule shortest_nonneg [OF x0])
  moreover have "fst (roundShortest x) \<noteq> 0"
  proof
    assume "fst (roundShortest x) = 0"
    with rb have "nearest64 0 = x" by simp
    with assms(1) show False by (simp add: nearest64_def)
  qed
  ultimately show "0 < fst (roundShortest x)" by simp
qed

lemma intOfDigits_append:
  "intOfDigits (xs @ ys) = intOfDigits xs * 10 ^ length ys + intOfDigits ys"
proof (induction ys rule: rev_induct)
  case Nil
  then show ?case by (simp add: intOfDigits_Nil)
next
  case (snoc c ys)
  have "intOfDigits (xs @ ys @ [c]) = 10 * intOfDigits (xs @ ys) + (of_char c - 48)"
    using intOfDigits_snoc [of "xs @ ys" c] by simp
  then show ?case
    by (simp add: snoc intOfDigits_snoc algebra_simps)
qed

lemma intOfDigits_zeros: "intOfDigits (replicate n CHR ''0'') = 0"
  by (induction n) (simp_all add: intOfDigits_Nil intOfDigits_def)

lemma not_isDigit_point: "\<not> isDigit CHR ''.''"
  by (simp add: isDigit_def)

lemma not_isDigit_minus: "\<not> isDigit CHR ''-''"
  by (simp add: isDigit_def)

lemma readFloat_plain:
  assumes "list_all isDigit W" and "W \<noteq> []" and "list_all isDigit F"
  shows "readFloat ((if neg then ''-'' else '''') @ W) = Some (neg, of_int (intOfDigits W))"
    and "F \<noteq> [] \<Longrightarrow>
         readFloat ((if neg then ''-'' else '''') @ W @ CHR ''.'' # F) =
           Some (neg, of_int (intOfDigits W) + of_int (intOfDigits F) / 10 ^ length F)"
proof -
  have W: "\<forall>c \<in> set W. isDigit c" using assms(1) by (simp add: list_all_iff)
  have F: "\<forall>c \<in> set F. isDigit c" using assms(3) by (simp add: list_all_iff)
  have hdW: "hd W \<noteq> CHR ''-''"
    using W assms(2) not_isDigit_minus by (cases W) auto
  have tw1: "takeWhile isDigit W = W" using W by (simp add: takeWhile_eq_all_conv)
  have dw1: "dropWhile isDigit W = []" using W by (simp add: dropWhile_eq_Nil_conv)
  have tw2: "takeWhile isDigit (W @ CHR ''.'' # F) = W"
    using W by (simp add: takeWhile_append2 not_isDigit_point)
  have dw2: "dropWhile isDigit (W @ CHR ''.'' # F) = CHR ''.'' # F"
    using W by (simp add: dropWhile_append2 not_isDigit_point)
  have twF: "takeWhile isDigit F = F" using F by (simp add: takeWhile_eq_all_conv)
  have dwF: "dropWhile isDigit F = []" using F by (simp add: dropWhile_eq_Nil_conv)
  show "readFloat ((if neg then ''-'' else '''') @ W) = Some (neg, of_int (intOfDigits W))"
    using assms(2) hdW
    by (simp add: readFloat_def Let_def tw1 dw1 readExponent_def intOfDigits_Nil pow10_def)
  show "readFloat ((if neg then ''-'' else '''') @ W @ CHR ''.'' # F) =
           Some (neg, of_int (intOfDigits W) + of_int (intOfDigits F) / 10 ^ length F)"
    if "F \<noteq> []"
    using assms(2) hdW that
    by (simp add: readFloat_def Let_def tw2 dw2 twF dwF readExponent_def pow10_def
        not_isDigit_point)
qed

lemma fmtF_point_inside:
  assumes "0 < p" and "p < length ds"
  shows "fmtF neg ds (int p) = (if neg then ''-'' else '''') @ take p ds @ CHR ''.'' # drop p ds"
proof -
  have "map (\<lambda>i. ds ! (p + i)) [0 ..< length ds - p] = drop p ds"
    by (rule nth_equalityI) simp_all
  moreover have "map (\<lambda>i. let j = int p + int i
                         in if 0 \<le> j \<and> j < int (length ds) then ds ! nat j else CHR ''0'')
                   [0 ..< length ds - p]
               = map (\<lambda>i. ds ! (p + i)) [0 ..< length ds - p]"
    by (rule map_cong) (auto simp: Let_def nat_add_distrib)
  ultimately show ?thesis
    using assms by (simp add: fmtF_def Let_def min_def nat_diff_distrib')
qed

lemma fmtF_point_before:
  assumes "ds \<noteq> []"
  shows "fmtF neg ds (- int z) =
           (if neg then ''-'' else '''') @ ''0'' @ CHR ''.'' # replicate z CHR ''0'' @ ds"
proof -
  have "map (\<lambda>i. let j = - int z + int i
                  in if 0 \<le> j \<and> j < int (length ds) then ds ! nat j else CHR ''0'')
            [0 ..< length ds + z]
        = replicate z CHR ''0'' @ ds"
    by (rule nth_equalityI) (auto simp: Let_def nth_append nat_diff_distrib')
  moreover from assms have "0 < int (length ds) + int z"
    by (cases ds) simp_all
  ultimately show ?thesis
    using assms by (simp add: fmtF_def Let_def nat_add_distrib)
qed

lemma list_all_zeros: "list_all isDigit (replicate n CHR ''0'')"
  by (simp add: list_all_iff isDigit_0)

lemma readFloat_fmtF:
  assumes "0 \<le> d"
  shows "readFloat (fmtF neg (decimal d) (int (length (decimal d)) + k)) =
           Some (neg, of_int d * pow10 k)"
proof -
  define ds where "ds = decimal d"
  have all: "list_all isDigit ds" unfolding ds_def by (rule decimal_digits [OF assms])
  have ne: "ds \<noteq> []" unfolding ds_def by (rule decimal_not_Nil)
  have val: "intOfDigits ds = d" unfolding ds_def by (rule intOfDigits_decimal [OF assms])
  have all_set: "\<forall>c \<in> set ds. isDigit c" using all by (simp add: list_all_iff)
  show ?thesis
    unfolding ds_def [symmetric]
  proof (cases "0 \<le> k")
    case True
    define n where "n = nat k"
    from True have k: "k = int n" by (simp add: n_def)
    have W: "list_all isDigit (ds @ replicate n CHR ''0'')"
      using all by (simp add: list_all_zeros)
    have "fmtF neg ds (int (length ds) + k) =
        (if neg then ''-'' else '''') @ (ds @ replicate n CHR ''0'')"
      unfolding k using fmtF_integer [OF ne, of neg n] by simp
    moreover have "intOfDigits (ds @ replicate n CHR ''0'') = d * 10 ^ n"
      by (simp add: intOfDigits_append intOfDigits_zeros val)
    ultimately show "readFloat (fmtF neg ds (int (length ds) + k)) = Some (neg, of_int d * pow10 k)"
      using readFloat_plain(1) [OF W, where neg = neg and F = "[]"] ne by (simp add: k pow10_nat)
  next
    case False
    define n where "n = nat (- k)"
    from False have k: "k = - int n" and n: "0 < n" by (simp_all add: n_def)
    have p10: "pow10 k = 1 / 10 ^ n" using n by (simp add: k pow10_def)
    show "readFloat (fmtF neg ds (int (length ds) + k)) = Some (neg, of_int d * pow10 k)"
    proof (cases "n < length ds")
      case True
      define p where "p = length ds - n"
      from True n have p: "0 < p" "p < length ds" and dp: "int (length ds) + k = int p"
        by (simp_all add: p_def k)
      have lenF: "length (drop p ds) = n" using True by (simp add: p_def)
      have lenF': "length ds - p = n" using True by (simp add: p_def)
      have W: "list_all isDigit (take p ds)" and F: "list_all isDigit (drop p ds)"
        using all_set by (auto simp: list_all_iff dest: in_set_takeD in_set_dropD)
      have Wne: "take p ds \<noteq> []" using p ne by simp
      have Fne: "drop p ds \<noteq> []" using p by simp
      have "intOfDigits (take p ds @ drop p ds) =
          intOfDigits (take p ds) * 10 ^ n + intOfDigits (drop p ds)"
        by (simp only: intOfDigits_append lenF)
      then have split: "d = intOfDigits (take p ds) * 10 ^ n + intOfDigits (drop p ds)"
        by (simp add: val)
      have "(of_int d :: rat) / 10 ^ n =
          of_int (intOfDigits (take p ds)) + of_int (intOfDigits (drop p ds)) / 10 ^ n"
        by (subst split) (simp add: field_simps)
      with readFloat_plain(2) [OF W Wne F Fne, where neg = neg] show ?thesis
        unfolding dp fmtF_point_inside [OF p] by (simp add: lenF' p10)
    next
      case False
      define z where "z = n - length ds"
      from False have dp: "int (length ds) + k = - int z"
        by (simp add: z_def k)
      have lenF: "length (replicate z CHR ''0'' @ ds) = n"
        using False by (simp add: z_def)
      have W: "list_all isDigit ''0''" by (simp add: isDigit_0)
      have F: "list_all isDigit (replicate z CHR ''0'' @ ds)"
        using all by (simp add: list_all_zeros)
      have Fne: "replicate z CHR ''0'' @ ds \<noteq> []" using ne by simp
      have vF: "intOfDigits (replicate z CHR ''0'' @ ds) = d"
        by (simp add: intOfDigits_append intOfDigits_zeros val)
      have vW: "intOfDigits ''0'' = 0" by (simp add: intOfDigits_def)
      from readFloat_plain(2) [OF W _ F Fne, where neg = neg] show ?thesis
        unfolding dp fmtF_point_before [OF ne] by (simp add: vF vW lenF p10 del: length_append)
    qed
  qed
qed

lemma ParseFloat_valid:
  assumes "ParseFloat s = Inr f"
  shows "0 \<le> magnitude f" and "onGrid (magnitude f)" and "magnitude f < pow2 1024"
  using assms
  by (auto simp: ParseFloat_def Let_def nearest64_nonneg nearest64_onGrid
      split: option.splits if_splits)

lemma ParseFloat_FormatFloat:
  assumes "0 \<le> magnitude f" and "onGrid (magnitude f)" and "magnitude f < pow2 1024"
  shows "ParseFloat (FormatFloat f) = Inr f"
proof (cases "magnitude f = 0")
  case True
  have "FormatFloat f = (if negative f then ''-'' else '''') @ ''0''"
    using True by (simp add: FormatFloat_def fmtF_def)
  moreover have "readFloat ((if negative f then ''-'' else '''') @ ''0'') =
      Some (negative f, of_int (intOfDigits ''0''))"
    by (rule readFloat_plain(1) [where F = "[]"]) (simp_all add: isDigit_0)
  moreover have "intOfDigits ''0'' = 0" by (simp add: intOfDigits_def)
  ultimately show ?thesis
    using True pow2_pos [of 1024] by (simp add: ParseFloat_def nearest64_def)
next
  case False
  with assms(1) have pos: "0 < magnitude f" by simp
  define d where "d = fst (roundShortest (magnitude f))"
  define k where "k = snd (roundShortest (magnitude f))"
  from roundShortest_reads_back [OF pos assms(2)]
  have rb: "nearest64 (of_int d * pow10 k) = magnitude f" and d: "0 < d"
    by (simp_all add: d_def k_def)
  have "FormatFloat f = fmtF (negative f) (decimal d) (int (length (decimal d)) + k)"
    using False by (simp add: FormatFloat_def Let_def d_def k_def split: prod.splits)
  moreover have "readFloat (fmtF (negative f) (decimal d) (int (length (decimal d)) + k)) =
      Some (negative f, of_int d * pow10 k)"
    using d by (intro readFloat_fmtF) simp
  ultimately show ?thesis
    using assms(3) rb by (simp add: ParseFloat_def)
qed

lemma floor_tenth: "\<lfloor>(y :: rat) / 10\<rfloor> = \<lfloor>y\<rfloor> div 10"
proof (rule floor_unique)
  define n where "n = \<lfloor>y\<rfloor>"
  have n: "of_int n \<le> y" "y < of_int n + 1"
    using floor_correct [of y] by (simp_all add: n_def)
  have split: "n = 10 * (n div 10) + n mod 10" by simp
  have r: "0 \<le> n mod 10" "n mod 10 \<le> 9" by simp_all
  have "(of_int n :: rat) = 10 * of_int (n div 10) + of_int (n mod 10)"
    by (subst split) (simp only: of_int_add of_int_mult of_int_numeral)
  moreover have "(0 :: rat) \<le> of_int (n mod 10)" "(of_int (n mod 10) :: rat) \<le> 9"
    using r by simp_all
  ultimately show "of_int (n div 10) \<le> y / 10" and "y / 10 < of_int (n div 10) + 1"
    using n by simp_all
qed

lemma pow10_Suc: "pow10 (k + 1) = 10 * pow10 k"
proof -
  have "pow10 (k + 1) = 10 powi (k + 1)" by (rule pow10_powi)
  also have "\<dots> = 10 powi k * 10 powi 1" by (rule power_int_add) simp
  finally show ?thesis by (simp add: pow10_powi)
qed

lemma shortest_step:
  "shortest x kmin (Suc j) =
     (let k = kmin + int j + 1; down = \<lfloor>x / pow10 k\<rfloor>
      in if readsBack x down k \<and> readsBack x (down + 1) k then (roundHalfEven (x / pow10 k), k)
         else if readsBack x down k then (down, k)
         else if readsBack x (down + 1) k then (down + 1, k)
         else shortest x kmin j)"
proof -
  have "kmin + int (Suc j) = kmin + int j + 1" by simp
  then show ?thesis
    by (simp only: shortest.simps Let_def)
qed

lemma coarser_candidate:
  assumes "readsBack x d k" and "10 dvd d"
    and "d = \<lfloor>x / pow10 k\<rfloor> \<or> d = \<lfloor>x / pow10 k\<rfloor> + 1"
  shows "\<not> noneAt x (k + 1)"
proof -
  from assms(2) obtain q where q: "d = 10 * q" by (auto simp: dvd_def)
  have same: "(of_int q :: rat) * pow10 (k + 1) = of_int d * pow10 k"
    by (simp add: pow10_Suc q)
  have fl: "\<lfloor>x / pow10 (k + 1)\<rfloor> = \<lfloor>x / pow10 k\<rfloor> div 10"
    using floor_tenth [of "x / pow10 k"] by (simp add: pow10_Suc mult.commute)
  from assms(3) have "q = \<lfloor>x / pow10 (k + 1)\<rfloor> \<or> q = \<lfloor>x / pow10 (k + 1)\<rfloor> + 1"
  proof
    assume "d = \<lfloor>x / pow10 k\<rfloor>"
    then have "\<lfloor>x / pow10 k\<rfloor> = 10 * q" by (simp only: q)
    then have "\<lfloor>x / pow10 k\<rfloor> div 10 = q" by simp
    then show ?thesis by (simp add: fl)
  next
    assume "d = \<lfloor>x / pow10 k\<rfloor> + 1"
    then have "\<lfloor>x / pow10 k\<rfloor> = 10 * (q - 1) + 9" by (simp add: q)
    then have "\<lfloor>x / pow10 k\<rfloor> div 10 = q - 1" by simp
    then show ?thesis by (simp add: fl)
  qed
  moreover have "readsBack x q (k + 1)"
    using assms(1) by (simp add: readsBack_def same)
  ultimately show ?thesis by (auto simp: noneAt_def)
qed

lemma shortest_no_trailing_zero:
  assumes "0 \<le> x" and "onGrid x" and "of_int \<lfloor>x / pow10 kmin\<rfloor> = x / pow10 kmin"
    and "noneAt x (kmin + int j + 1)"
  shows "\<not> 10 dvd fst (shortest x kmin j)"
  using assms(4)
proof (induction j)
  case 0
  define d where "d = \<lfloor>x / pow10 kmin\<rfloor>"
  have "of_int d * pow10 kmin = x"
    using pow10_pos [of kmin] by (simp add: d_def assms(3))
  then have "readsBack x d kmin"
    using onGrid_fixed [OF assms(1,2)] by (simp add: readsBack_def)
  from coarser_candidate [OF this, folded d_def] 0 show ?case
    by (auto simp: d_def)
next
  case (Suc j)
  define k where "k = kmin + int j + 1"
  define down where "down = \<lfloor>x / pow10 k\<rfloor>"
  from Suc.prems have above: "noneAt x (k + 1)" by (simp add: k_def algebra_simps)
  from roundHalfEven_cases [of "x / pow10 k"]
  have r: "roundHalfEven (x / pow10 k) = down \<or> roundHalfEven (x / pow10 k) = down + 1"
    by (simp add: down_def)
  show ?case
  proof (cases "noneAt x k")
    case True
    then have "shortest x kmin (Suc j) = shortest x kmin j"
      unfolding shortest_step by (simp add: noneAt_def k_def Let_def del: shortest.simps)
    with Suc.IH True show ?thesis by (simp add: k_def del: shortest.simps)
  next
    case False
    define d where "d = fst (shortest x kmin (Suc j))"
    from False r have found: "readsBack x d k" and cand: "d = down \<or> d = down + 1"
      unfolding d_def shortest_step
      by (auto simp: noneAt_def k_def [symmetric] down_def [symmetric] Let_def
          simp del: shortest.simps)
    from coarser_candidate [OF found _ cand [unfolded down_def]] above
    show ?thesis by (auto simp: d_def)
  qed
qed

lemma decimal_length_bound: "0 \<le> n \<Longrightarrow> n < 10 ^ length (decimal n)"
proof (induction n rule: decimal.induct)
  case (1 n)
  show ?case
  proof (cases "n < 10")
    case True
    then show ?thesis by (subst decimal.simps) simp
  next
    case False
    with 1 have "n div 10 < 10 ^ length (decimal (n div 10))" by simp
    then have "n < 10 * 10 ^ length (decimal (n div 10))" by linarith
    then show ?thesis using False by (subst decimal.simps) simp
  qed
qed

lemma below_top:
  assumes "0 \<le> x"
  shows "x < pow10 (int (length (decimal \<lfloor>x\<rfloor>)) + 1)"
proof -
  define n where "n = \<lfloor>x\<rfloor>"
  have "0 \<le> n" using assms by (simp add: n_def)
  from decimal_length_bound [OF this] have "n + 1 \<le> 10 ^ length (decimal n)" by simp
  then have "(of_int (n + 1) :: rat) \<le> of_int (10 ^ length (decimal n))"
    by (simp only: of_int_le_iff)
  moreover have "x < of_int (n + 1)" using floor_correct [of x] by (simp add: n_def)
  ultimately have "x < 10 ^ length (decimal n)" by simp
  also have "\<dots> \<le> 10 * 10 ^ length (decimal n)" by simp
  also have "\<dots> = pow10 (int (length (decimal n)) + 1)"
    by (simp add: pow10_Suc pow10_nat)
  finally show ?thesis by (simp add: n_def)
qed

lemma roundShortest_no_trailing_zero:
  assumes "0 < x" and "onGrid x"
  shows "\<not> 10 dvd fst (roundShortest x)"
proof -
  define kmin where "kmin = min (lastPlace x) 0"
  define top where "top = int (length (decimal \<lfloor>x\<rfloor>)) + 1"
  define j where "j = nat (top - kmin - 1)"
  have x0: "0 \<le> x" using assms(1) by simp
  have "kmin \<le> 0" by (simp add: kmin_def)
  moreover have "1 \<le> top" by (simp add: top_def)
  ultimately have j: "nat (top - kmin) = Suc j" and k: "kmin + int j + 1 = top"
    by (simp_all add: j_def)
  have rs: "roundShortest x = shortest x kmin (Suc j)"
    by (simp add: roundShortest_def Let_def kmin_def [symmetric] top_def [symmetric] j
        del: shortest.simps)
  have "x / pow10 top < 1"
    using below_top [OF x0] pow10_pos [of top] by (simp add: top_def)
  moreover have "0 \<le> x / pow10 top" using x0 pow10_pos [of top] by simp
  ultimately have down: "\<lfloor>x / pow10 top\<rfloor> = 0" by (simp add: floor_eq_iff)
  have no0: "\<not> readsBack x 0 top"
    using assms(1) by (simp add: readsBack_def nearest64_def)
  note exact = onGrid_digits [OF assms(2), folded kmin_def]
  show ?thesis
  proof (cases "readsBack x 1 top")
    case True
    with no0 have "shortest x kmin (Suc j) = (1, top)"
      unfolding shortest_step by (simp add: k down Let_def del: shortest.simps)
    then show ?thesis by (simp add: rs del: shortest.simps)
  next
    case False
    with no0 have none: "noneAt x top" by (simp add: noneAt_def down)
    with no0 False have "shortest x kmin (Suc j) = shortest x kmin j"
      unfolding shortest_step by (simp add: k down Let_def del: shortest.simps)
    moreover from none have "noneAt x (kmin + int j + 1)" by (simp only: k)
    from shortest_no_trailing_zero [OF x0 assms(2) exact this]
    have "\<not> 10 dvd fst (shortest x kmin j)" .
    ultimately show ?thesis by (simp add: rs del: shortest.simps)
  qed
qed

lemma last_decimal: "0 \<le> n \<Longrightarrow> last (decimal n) = digitChar (n mod 10)"
  by (subst decimal.simps) simp

lemma digitChar_not_0:
  assumes "0 < m" and "m < 10"
  shows "digitChar m \<noteq> CHR ''0''" and "digitChar m \<noteq> CHR ''.''"
proof -
  have c: "(of_char (digitChar m) :: int) = 48 + m"
    using assms by (intro digitChar_code) simp_all
  show "digitChar m \<noteq> CHR ''0''"
  proof
    assume "digitChar m = CHR ''0''"
    with c show False using assms(1) by simp
  qed
  show "digitChar m \<noteq> CHR ''.''"
  proof
    assume "digitChar m = CHR ''.''"
    with c show False using assms(1) by simp
  qed
qed

lemma FormatFloat_no_trailing_zero:
  assumes "0 \<le> magnitude f" and "onGrid (magnitude f)" and "CHR ''.'' \<in> set (FormatFloat f)"
  shows "last (FormatFloat f) \<noteq> CHR ''0''" and "last (FormatFloat f) \<noteq> CHR ''.''"
proof -
  have pos: "0 < magnitude f"
  proof (rule ccontr)
    assume "\<not> 0 < magnitude f"
    with assms(1) have "magnitude f = 0" by simp
    then have "FormatFloat f = (if negative f then ''-'' else '''') @ ''0''"
      by (simp add: FormatFloat_def fmtF_def)
    with assms(3) show False by (simp split: if_splits)
  qed
  define d where "d = fst (roundShortest (magnitude f))"
  define k where "k = snd (roundShortest (magnitude f))"
  define ds where "ds = decimal d"
  from roundShortest_reads_back(2) [OF pos assms(2)] have d: "0 < d" by (simp add: d_def)
  from roundShortest_no_trailing_zero [OF pos assms(2)] have "\<not> 10 dvd d" by (simp add: d_def)
  then have "d mod 10 \<noteq> 0" by (simp add: dvd_eq_mod_eq_0)
  moreover have "0 \<le> d mod 10" by simp
  moreover have "d mod 10 < 10" by simp
  ultimately have m: "0 < d mod 10" "d mod 10 < 10" by linarith+
  have ne: "ds \<noteq> []" unfolding ds_def by (rule decimal_not_Nil)
  have "list_all isDigit ds" unfolding ds_def using d by (intro decimal_digits) simp
  then have nopoint: "CHR ''.'' \<notin> set ds"
    using not_isDigit_point by (auto simp: list_all_iff)
  have "last ds = digitChar (d mod 10)"
    unfolding ds_def using d by (intro last_decimal) simp
  with digitChar_not_0 [OF m]
  have lst: "last ds \<noteq> CHR ''0''" "last ds \<noteq> CHR ''.''" by simp_all
  have ff: "FormatFloat f = fmtF (negative f) ds (int (length ds) + k)"
    using pos by (simp add: FormatFloat_def Let_def d_def k_def ds_def split: prod.splits)
  have "last (FormatFloat f) = last ds"
  proof (cases "0 \<le> k")
    case True
    then have "FormatFloat f = (if negative f then ''-'' else '''') @ ds @ replicate (nat k) CHR ''0''"
      using fmtF_integer [OF ne, of "negative f" "nat k"] by (simp add: ff)
    with assms(3) nopoint show ?thesis by (auto split: if_splits)
  next
    case False
    define n where "n = nat (- k)"
    from False have k: "k = - int n" and n: "0 < n" by (simp_all add: n_def)
    show ?thesis
    proof (cases "n < length ds")
      case True
      define p where "p = length ds - n"
      from True n have p: "0 < p" "p < length ds" and dp: "int (length ds) + k = int p"
        by (simp_all add: p_def k)
      show ?thesis
        unfolding ff dp fmtF_point_inside [OF p] using p by simp
    next
      case False
      define z where "z = n - length ds"
      from False have dp: "int (length ds) + k = - int z"
        by (simp add: z_def k)
      show ?thesis
        unfolding ff dp fmtF_point_before [OF ne] using ne by simp
    qed
  qed
  with lst show "last (FormatFloat f) \<noteq> CHR ''0''" and "last (FormatFloat f) \<noteq> CHR ''.''"
    by simp_all
qed

subsection \<open>Recorded errors and the wrapper's recipient\<close>

lemma saveError_Some: "saveError err saved \<noteq> None"
  by (simp add: saveError_def split: option.splits)

lemma interface_keeps_error:
  "snd (valueInterface j saved) = None \<Longrightarrow> saved = None"
  "snd (arrayInterface vs saved) = None \<Longrightarrow> saved = None"
  "snd (objectInterface ms m saved) = None \<Longrightarrow> saved = None"
proof (induction j saved and vs saved and ms m saved
    rule: valueInterface_arrayInterface_objectInterface.induct)
  case (4 s saved)
  then show ?case by (auto simp: saveError_Some split: sum.splits)
next
  case (5 vs saved)
  then show ?case by (auto split: prod.splits)
next
  case (6 ms saved)
  then show ?case by (auto split: prod.splits)
next
  case (8 v vs saved)
  then show ?case by (auto split: prod.splits)
next
  case (10 kv ms m saved)
  then show ?case by (auto split: prod.splits)
qed simp_all

lemma storeString_keeps_error: "storeString j cur saved = (s, None) \<Longrightarrow> saved = None"
  by (cases j) (simp_all add: saveError_Some)

lemma mapElems_keeps_error: "mapElems ms m saved = (m', None) \<Longrightarrow> saved = None"
proof (induction ms arbitrary: m saved)
  case Nil
  then show ?case by simp
next
  case (Cons kv ms)
  obtain s saved1 where st: "storeString (snd kv) '''' saved = (s, saved1)"
    by (cases "storeString (snd kv) '''' saved")
  with Cons.prems have "mapElems ms (m(fst kv \<mapsto> s)) saved1 = (m', None)" by simp
  then have "saved1 = None" by (rule Cons.IH)
  with st show ?case by (simp add: storeString_keeps_error)
qed

lemma storeMap_keeps_error: "storeMap j cur saved = (m, None) \<Longrightarrow> saved = None"
  by (cases j) (auto simp: saveError_Some split: prod.splits dest: mapElems_keeps_error)

lemma storeInterface_ok:
  assumes "storeInterface j cur saved = (x, None)"
  shows "saved = None" and "x = fst (valueInterface j None)"
    and "snd (valueInterface j None) = None"
proof -
  show saved: "saved = None"
    using assms interface_keeps_error(1) [of j saved]
    by (cases j) (auto simp: saveError_Some split: sum.splits)
  show "x = fst (valueInterface j None)"
    using assms unfolding saved by (cases j) (auto simp: saveError_Some split: sum.splits)
  show "snd (valueInterface j None) = None"
    using assms unfolding saved by (cases j) (auto simp: saveError_Some split: sum.splits)
qed

lemma object_keeps_error:
  "object ut ms w saved = Inr (w', None) \<Longrightarrow> saved = None"
proof (induction ms arbitrary: w saved)
  case Nil
  then show ?case by simp
next
  case (Cons kv ms)
  show ?case
  proof (cases "lookupField (fst kv)")
    case None
    with Cons show ?thesis by simp
  next
    case (Some fld)
    with Cons.prems show ?thesis
      by (cases fld)
        (auto split: prod.splits sum.splits
          dest!: Cons.IH
          dest: storeString_keeps_error storeMap_keeps_error storeInterface_ok(1))
  qed
qed

lemma object_Recipient:
  "object ut ms w saved = Inr (w', None) \<Longrightarrow>
     (case recipientMember ms of
        None \<Rightarrow> wrapper.Recipient w' = wrapper.Recipient w
      | Some j \<Rightarrow> wrapper.Recipient w' = fst (valueInterface j None)
                 \<and> snd (valueInterface j None) = None)"
proof (induction ms arbitrary: w saved)
  case Nil
  then show ?case by simp
next
  case (Cons kv ms)
  show ?case
  proof (cases "lookupField (fst kv)")
    case None
    with Cons.prems have "object ut ms w saved = Inr (w', None)" by simp
    from Cons.IH [OF this] None show ?thesis by (simp split: option.splits)
  next
    case (Some fld)
    show ?thesis
    proof (cases "fld = RecipientField")
      case True
      obtain x saved1 where st: "storeInterface (snd kv) (wrapper.Recipient w) saved = (x, saved1)"
        by (cases "storeInterface (snd kv) (wrapper.Recipient w) saved")
      with Cons.prems Some True
      have rest: "object ut ms (w\<lparr>wrapper.Recipient := x\<rparr>) saved1 = Inr (w', None)"
        by simp
      then have "saved1 = None" by (rule object_keeps_error)
      with st have ok: "x = fst (valueInterface (snd kv) None)"
        "snd (valueInterface (snd kv) None) = None"
        by (simp_all add: storeInterface_ok)
      from Cons.IH [OF rest] ok Some True show ?thesis
        by (simp split: option.splits)
    next
      case False
      with Some Cons.prems obtain w1 saved1
        where rest: "object ut ms w1 saved1 = Inr (w', None)"
          and same: "wrapper.Recipient w1 = wrapper.Recipient w"
        by (cases fld) (auto split: prod.splits sum.splits)
      from Cons.IH [OF rest] same Some False show ?thesis
        by (simp split: option.splits)
    qed
  qed
qed

lemma Unmarshal_Recipient:
  assumes "Unmarshal ut b zeroWrapper = Inr w"
  shows "case recipientOf b of
           None \<Rightarrow> wrapper.Recipient w = nilAny
         | Some j \<Rightarrow> wrapper.Recipient w = fst (valueInterface j None)
                    \<and> snd (valueInterface j None) = None"
proof (cases b)
  case Invalid
  with assms show ?thesis by (simp add: Unmarshal_def)
next
  case (Valid j)
  show ?thesis
  proof (cases j)
    case (JObject ms)
    with assms Valid have "object ut ms zeroWrapper None = Inr (w, None)"
      by (auto simp: Unmarshal_def split: sum.splits prod.splits option.splits)
    from object_Recipient [OF this] Valid JObject show ?thesis
      by (simp add: zeroWrapper_def split: option.splits)
  qed (use assms Valid in \<open>auto simp: Unmarshal_def zeroWrapper_def\<close>)
qed

lemma UnmarshalJSON_fails:
  "Unmarshal ut b zeroWrapper = Inl err \<Longrightarrow> UnmarshalJSON ut (Some old) b = Inl err"
  by (simp add: UnmarshalJSON_def)

lemma Unmarshal_cases:
  obtains err where "Unmarshal ut b zeroWrapper = Inl err"
  | w where "Unmarshal ut b zeroWrapper = Inr w"
  by (cases "Unmarshal ut b zeroWrapper") auto

subsection \<open>Concrete payloads\<close>

lemmas eval_fields = lookupField_def fieldTable_def char_of_eq_iff

lemma decimal_31612345678: "decimal 31612345678 = ''31612345678''"
  by (simp add: decimal.simps digitChar_def char_of_eq_iff)

lemma convertNumber_31612345678:
  "convertNumber ''31612345678'' = Inr \<lparr>negative = False, magnitude = 31612345678\<rparr>"
  using ParseFloat_decimal(1) [of 31612345678]
  by (simp add: convertNumber_def decimal_31612345678)

lemma convertNumber_1_50:
  "convertNumber ''1.50'' = Inr \<lparr>negative = False, magnitude = 3 / 2\<rparr>"
  by code_simp

lemma FormatFloat_1_50: "FormatFloat \<lparr>negative = False, magnitude = 3 / 2\<rparr> = ''1.5''"
  by code_simp

lemma decode_1_50:
  "UnmarshalJSON noTime (Some zeroVerify)
     (Valid (JObject [(''status'', JString ''sent''), (''recipient'', JNumber ''1.50'')]))
   = Inr (zeroVerify\<lparr>Verify.Status := ''sent'', Verify.Recipient := ''1.5''\<rparr>)"
  by (simp add: UnmarshalJSON_def Unmarshal_def eval_fields zeroWrapper_def zeroVerify_def
      convertNumber_1_50 FormatFloat_1_50)

lemma convertNumber_20_digits:
  "convertNumber ''12345678901234567890''
   = Inr \<lparr>negative = False, magnitude = 12345678901234567168\<rparr>"
  by code_simp

lemma FormatFloat_20_digits:
  "FormatFloat \<lparr>negative = False, magnitude = 12345678901234567168\<rparr>
   = ''12345678901234567000''"
  by code_simp

lemma readFloat_1e400: "readFloat ''1e400'' = Some (False, 10 ^ 400)"
  by (simp add: readFloat_def readExponent_def isDigit_def intOfDigits_def pow10_def Let_def)

lemma convertNumber_1e400:
  "convertNumber ''1e400'' = Inl (UnmarshalTypeError ''number 1e400'' Float64Type)"
proof -
  have "pow2 1024 \<le> (10 ^ 400 :: rat)" by (simp add: pow2_def)
  then have "pow2 1024 \<le> nearest64 (10 ^ 400)" by (rule nearest64_ge_pow2) simp
  then show ?thesis by (simp add: convertNumber_def ParseFloat_def readFloat_1e400)
qed

subsection \<open>The recipient as a number, as a string, as anything else, and absent\<close>

text \<open>
  C1, as amended. Let \<^verbatim>\<open>json.Unmarshal\<close> accept the payload into the wrapper
  (it returns nil and leaves the wrapper \<open>w\<close>), and let the member that decides the
  recipient be a JSON number with the literal \<open>s\<close>. Then \<open>s\<close> is in the range of
  \<^verbatim>\<open>float64\<close>, decoding succeeds, and the result is the \<^verbatim>\<open>Alias\<close> part
  of \<open>w\<close> with \<^verbatim>\<open>Recipient\<close> set to \<^verbatim>\<open>FormatFloat\<close> of \<open>f\<close>, the
  \<^verbatim>\<open>float64\<close> nearest to the number. That string reads back as \<open>f\<close>: it keeps
  the full precision of the \<^verbatim>\<open>float64\<close>. It is made of digits, \<^verbatim>\<open>.\<close> and
  \<^verbatim>\<open>-\<close> only: there is no exponent. If it has a fraction, the fraction does
  not end in \<^verbatim>\<open>0\<close>. When the literal is an integer of magnitude below
  \<open>2 ^ 53\<close>, written without fraction and exponent, the string is the literal
  itself, digit for digit.
\<close>

theorem number_recipient:
  assumes "Unmarshal ut b zeroWrapper = Inr w" and "recipientOf b = Some (JNumber s)"
  shows "\<exists>f. ParseFloat s = Inr f
       \<and> UnmarshalJSON ut (Some old) b = Inr ((Alias w)\<lparr>Verify.Recipient := FormatFloat f\<rparr>)
       \<and> ParseFloat (FormatFloat f) = Inr f
       \<and> (\<forall>c \<in> set (FormatFloat f). isDigit c \<or> c = CHR ''.'' \<or> c = CHR ''-'')
       \<and> (CHR ''.'' \<in> set (FormatFloat f) \<longrightarrow>
             last (FormatFloat f) \<noteq> CHR ''0'' \<and> last (FormatFloat f) \<noteq> CHR ''.'')
       \<and> (\<forall>n. 0 \<le> n \<and> n < 2 ^ 53 \<and> (s = decimal n \<or> s = CHR ''-'' # decimal n)
             \<longrightarrow> FormatFloat f = s)"
proof -
  from Unmarshal_Recipient [OF assms(1)] assms(2)
  have r: "wrapper.Recipient w = fst (valueInterface (JNumber s) None)"
    and ok: "snd (valueInterface (JNumber s) None) = None"
    by simp_all
  from ok obtain f where f: "ParseFloat s = Inr f"
    by (cases "ParseFloat s") (auto simp: convertNumber_def saveError_Some)
  with r have "wrapper.Recipient w = float64Any f"
    by (simp add: convertNumber_def)
  with assms(1) have res: "UnmarshalJSON ut (Some old) b =
      Inr ((Alias w)\<lparr>Verify.Recipient := FormatFloat f\<rparr>)"
    by (simp add: UnmarshalJSON_def)
  note valid = ParseFloat_valid [OF f]
  have again: "ParseFloat (FormatFloat f) = Inr f"
    by (rule ParseFloat_FormatFloat [OF valid])
  have chars: "\<forall>c \<in> set (FormatFloat f). isDigit c \<or> c = CHR ''.'' \<or> c = CHR ''-''"
    using FormatFloat_chars [OF valid(1)] by blast
  have fraction: "CHR ''.'' \<in> set (FormatFloat f) \<longrightarrow>
      last (FormatFloat f) \<noteq> CHR ''0'' \<and> last (FormatFloat f) \<noteq> CHR ''.''"
    using FormatFloat_no_trailing_zero [OF valid(1,2)] by blast
  have ints: "FormatFloat f = s"
    if n: "0 \<le> n" "n < 2 ^ 53" and s: "s = decimal n \<or> s = CHR ''-'' # decimal n" for n
  proof -
    from s show ?thesis
    proof
      assume "s = decimal n"
      with f ParseFloat_decimal(1) [OF n] FormatFloat_integer [OF n, of False]
      show ?thesis by simp
    next
      assume "s = CHR ''-'' # decimal n"
      with f ParseFloat_decimal(2) [OF n] FormatFloat_integer [OF n, of True]
      show ?thesis by simp
    qed
  qed
  from f res again chars fraction ints show ?thesis by blast
qed

theorem number_recipient_witness:
  "Unmarshal noTime
     (Valid (JObject [(''id'', JString ''abc''), (''status'', JString ''sent''),
                      (''recipient'', JNumber ''31612345678'')])) zeroWrapper
     = Inr \<lparr>Alias = zeroVerify\<lparr>Verify.ID := ''abc'', Verify.Status := ''sent''\<rparr>,
            wrapper.Recipient = float64Any \<lparr>negative = False, magnitude = 31612345678\<rparr>\<rparr>
   \<and> recipientOf
       (Valid (JObject [(''id'', JString ''abc''), (''status'', JString ''sent''),
                        (''recipient'', JNumber ''31612345678'')]))
     = Some (JNumber ''31612345678'')
   \<and> UnmarshalJSON noTime (Some zeroVerify)
       (Valid (JObject [(''id'', JString ''abc''), (''status'', JString ''sent''),
                        (''recipient'', JNumber ''31612345678'')]))
     = Inr \<lparr>Verify.ID = ''abc'', HRef = '''', Reference = '''', Status = ''sent'',
            Messages = None, CreatedDatetime = None, ValidUntilDatetime = None,
            Recipient = ''31612345678''\<rparr>"
proof -
  let ?b = "Valid (JObject [(''id'', JString ''abc''), (''status'', JString ''sent''),
                      (''recipient'', JNumber ''31612345678'')])"
  let ?w = "\<lparr>Alias = zeroVerify\<lparr>Verify.ID := ''abc'', Verify.Status := ''sent''\<rparr>,
            wrapper.Recipient = float64Any \<lparr>negative = False, magnitude = 31612345678\<rparr>\<rparr>
            :: unit wrapper"
  have u: "Unmarshal noTime ?b zeroWrapper = Inr ?w"
    by (simp add: Unmarshal_def eval_fields convertNumber_31612345678 zeroWrapper_def)
  have r: "recipientOf ?b = Some (JNumber ''31612345678'')"
    by (simp add: eval_fields)
  from number_recipient [OF u r, of zeroVerify]
  obtain f where res: "UnmarshalJSON noTime (Some zeroVerify) ?b =
        Inr ((Alias ?w)\<lparr>Verify.Recipient := FormatFloat f\<rparr>)"
    and ints: "\<forall>n. 0 \<le> n \<and> n < 2 ^ 53
        \<and> (''31612345678'' = decimal n \<or> ''31612345678'' = CHR ''-'' # decimal n)
        \<longrightarrow> FormatFloat f = ''31612345678''"
    by blast
  from ints [rule_format, of 31612345678] have "FormatFloat f = ''31612345678''"
    by (simp add: decimal_31612345678)
  with res have "UnmarshalJSON noTime (Some zeroVerify) ?b =
      Inr \<lparr>Verify.ID = ''abc'', HRef = '''', Reference = '''', Status = ''sent'',
            Messages = None, CreatedDatetime = None, ValidUntilDatetime = None,
            Recipient = ''31612345678''\<rparr>"
    by (simp add: zeroVerify_def)
  with u r show ?thesis by simp
qed

theorem number_recipient_counterexample:
  "recipientOf (Valid (JObject [(''recipient'', JNumber ''1e400'')])) = Some (JNumber ''1e400'')
   \<and> UnmarshalJSON noTime (Some zeroVerify) (Valid (JObject [(''recipient'', JNumber ''1e400'')]))
       = Inl (UnmarshalTypeError ''number 1e400'' Float64Type)
   \<and> UnmarshalJSON noTime (Some zeroVerify)
       (Valid (JObject [(''recipient'', JNumber ''12345678901234567890'')]))
       = Inr (zeroVerify\<lparr>Verify.Recipient := ''12345678901234567000''\<rparr>)"
  by (simp add: UnmarshalJSON_def Unmarshal_def eval_fields convertNumber_1e400 saveError_def
      zeroWrapper_def convertNumber_20_digits FormatFloat_20_digits)

text \<open>
  C2, as amended. Let \<^verbatim>\<open>json.Unmarshal\<close> accept the payload into the wrapper,
  leaving the wrapper \<open>w\<close>, and let the member that decides the recipient be the JSON
  string \<open>s\<close>. Then decoding succeeds and stores the \<^verbatim>\<open>Alias\<close> part of \<open>w\<close>
  with \<^verbatim>\<open>Recipient\<close> set to \<open>s\<close>, unchanged.
\<close>

theorem string_recipient:
  assumes "Unmarshal ut b zeroWrapper = Inr w" and "recipientOf b = Some (JString s)"
  shows "UnmarshalJSON ut (Some old) b = Inr ((Alias w)\<lparr>Verify.Recipient := s\<rparr>)"
proof -
  from Unmarshal_Recipient [OF assms(1)] assms(2)
  have "wrapper.Recipient w = stringAny s" by simp
  with assms(1) show ?thesis by (simp add: UnmarshalJSON_def)
qed

theorem string_recipient_witness:
  "Unmarshal noTime
     (Valid (JObject [(''id'', JString ''abc''), (''status'', JString ''sent''),
                      (''recipient'', JString ''31612345678'')])) zeroWrapper
     = Inr \<lparr>Alias = zeroVerify\<lparr>Verify.ID := ''abc'', Verify.Status := ''sent''\<rparr>,
            wrapper.Recipient = stringAny ''31612345678''\<rparr>
   \<and> recipientOf
       (Valid (JObject [(''id'', JString ''abc''), (''status'', JString ''sent''),
                        (''recipient'', JString ''31612345678'')]))
     = Some (JString ''31612345678'')
   \<and> UnmarshalJSON noTime (Some zeroVerify)
       (Valid (JObject [(''id'', JString ''abc''), (''status'', JString ''sent''),
                        (''recipient'', JString ''31612345678'')]))
     = Inr \<lparr>Verify.ID = ''abc'', HRef = '''', Reference = '''', Status = ''sent'',
            Messages = None, CreatedDatetime = None, ValidUntilDatetime = None,
            Recipient = ''31612345678''\<rparr>"
proof -
  let ?b = "Valid (JObject [(''id'', JString ''abc''), (''status'', JString ''sent''),
                      (''recipient'', JString ''31612345678'')])"
  let ?w = "\<lparr>Alias = zeroVerify\<lparr>Verify.ID := ''abc'', Verify.Status := ''sent''\<rparr>,
            wrapper.Recipient = stringAny ''31612345678''\<rparr> :: unit wrapper"
  have u: "Unmarshal noTime ?b zeroWrapper = Inr ?w"
    by (simp add: Unmarshal_def eval_fields zeroWrapper_def)
  have r: "recipientOf ?b = Some (JString ''31612345678'')"
    by (simp add: eval_fields)
  from string_recipient [OF u r, of zeroVerify] u r show ?thesis
    by (simp add: zeroVerify_def)
qed

theorem string_recipient_counterexample:
  "recipientOf (Valid (JObject [(''id'', JNumber ''5''), (''recipient'', JString ''31612345678'')]))
     = Some (JString ''31612345678'')
   \<and> UnmarshalJSON noTime (Some zeroVerify)
       (Valid (JObject [(''id'', JNumber ''5''), (''recipient'', JString ''31612345678'')]))
     = Inl (UnmarshalTypeError ''number'' StringType)"
  by (simp add: UnmarshalJSON_def Unmarshal_def eval_fields saveError_def zeroWrapper_def)

text \<open>
  C3, as amended. Let the member that decides the recipient be neither a number nor
  a string: null, a boolean, an array or an object. Then decoding fails, whatever
  the rest of the payload is. When \<^verbatim>\<open>json.Unmarshal\<close> accepts the payload, the
  error is ``recipient is unknown type T'', where T is the Go type of the decoded
  value: \<^verbatim>\<open><nil>\<close>, \<^verbatim>\<open>bool\<close>, \<^verbatim>\<open>[]interface {}\<close> or
  \<^verbatim>\<open>map[string]interface {}\<close>. When the library rejects the payload, the error
  is the library's.
\<close>

theorem other_recipient:
  assumes "recipientOf b = Some j" and "\<forall>s. j \<noteq> JNumber s" and "\<forall>s. j \<noteq> JString s"
  shows "(\<exists>err. UnmarshalJSON ut (Some old) b = Inl err)
       \<and> (\<forall>w. Unmarshal ut b zeroWrapper = Inr w \<longrightarrow>
             UnmarshalJSON ut (Some old) b =
               Inl (errorString (''recipient is unknown type '' @ dynamicType j)))"
proof -
  have main: "UnmarshalJSON ut (Some old) b =
      Inl (errorString (''recipient is unknown type '' @ dynamicType j))"
    if w: "Unmarshal ut b zeroWrapper = Inr w" for w
  proof -
    from Unmarshal_Recipient [OF w] assms(1)
    have "wrapper.Recipient w = fst (valueInterface j None)" by simp
    with assms(2,3) w show ?thesis
      by (cases j) (auto simp: UnmarshalJSON_def split: prod.splits)
  qed
  show ?thesis
  proof (cases rule: Unmarshal_cases [of ut b])
    case (1 err)
    then show ?thesis by (simp add: UnmarshalJSON_fails)
  next
    case (2 w)
    with main show ?thesis by simp
  qed
qed

theorem other_recipient_witness:
  "UnmarshalJSON noTime (Some zeroVerify)
       (Valid (JObject [(''id'', JString ''abc''), (''recipient'', JBool True)]))
     = Inl (errorString ''recipient is unknown type bool'')
   \<and> UnmarshalJSON noTime (Some zeroVerify)
       (Valid (JObject [(''recipient'', JObject [(''msisdn'', JNumber ''31612345678'')])]))
     = Inl (errorString ''recipient is unknown type map[string]interface {}'')"
proof -
  let ?b1 = "Valid (JObject [(''id'', JString ''abc''), (''recipient'', JBool True)])"
  let ?b2 = "Valid (JObject [(''recipient'', JObject [(''msisdn'', JNumber ''31612345678'')])])"
  have u1: "Unmarshal noTime ?b1 zeroWrapper =
      Inr (\<lparr>Alias = zeroVerify\<lparr>Verify.ID := ''abc''\<rparr>, wrapper.Recipient = boolAny True\<rparr>
           :: unit wrapper)"
    by (simp add: Unmarshal_def eval_fields zeroWrapper_def)
  have r1: "recipientOf ?b1 = Some (JBool True)"
    by (simp add: eval_fields)
  have u2: "Unmarshal noTime ?b2 zeroWrapper =
      Inr (\<lparr>Alias = zeroVerify,
             wrapper.Recipient =
               mapAny [(''msisdn'', float64Any \<lparr>negative = False, magnitude = 31612345678\<rparr>)]\<rparr>
           :: unit wrapper)"
    by (simp add: Unmarshal_def eval_fields zeroWrapper_def convertNumber_31612345678
        mapAssign_def)
  have r2: "recipientOf ?b2 = Some (JObject [(''msisdn'', JNumber ''31612345678'')])"
    by (simp add: eval_fields)
  from other_recipient [OF r1, of noTime zeroVerify] u1
    other_recipient [OF r2, of noTime zeroVerify] u2
  show ?thesis by simp
qed

theorem other_recipient_counterexample:
  "recipientOf (Valid (JObject [(''id'', JNumber ''5''), (''recipient'', JBool True)]))
     = Some (JBool True)
   \<and> UnmarshalJSON noTime (Some zeroVerify)
       (Valid (JObject [(''id'', JNumber ''5''), (''recipient'', JBool True)]))
     = Inl (UnmarshalTypeError ''number'' StringType)
   \<and> recipientOf (Valid (JObject [(''createdDatetime'', JNumber ''5''), (''recipient'', JBool True)]))
     = Some (JBool True)
   \<and> UnmarshalJSON noTime (Some zeroVerify)
       (Valid (JObject [(''createdDatetime'', JNumber ''5''), (''recipient'', JBool True)]))
     = Inl (errorString ''Time.UnmarshalJSON: input is not a JSON string'')"
  by (simp add: UnmarshalJSON_def Unmarshal_def eval_fields saveError_def zeroWrapper_def
      noTime_def)

text \<open>
  C10. Let no member of the payload name the recipient, or let the member that
  decides it be null (a payload that is not an object has no such member). Then
  decoding fails: no value is ever stored. When \<^verbatim>\<open>json.Unmarshal\<close> accepts
  the payload, which it does when every other member is well formed, the wrapper's
  \<^verbatim>\<open>Recipient\<close> is nil and the error is ``recipient is unknown type <nil>''.
\<close>

theorem missing_recipient:
  assumes "recipientOf b = None \<or> recipientOf b = Some JNull"
  shows "(\<exists>err. UnmarshalJSON ut (Some old) b = Inl err)
       \<and> (\<forall>w. Unmarshal ut b zeroWrapper = Inr w \<longrightarrow>
             UnmarshalJSON ut (Some old) b =
               Inl (errorString ''recipient is unknown type <nil>''))"
proof -
  have main: "UnmarshalJSON ut (Some old) b =
      Inl (errorString ''recipient is unknown type <nil>'')"
    if w: "Unmarshal ut b zeroWrapper = Inr w" for w
  proof -
    from Unmarshal_Recipient [OF w] assms
    have "wrapper.Recipient w = nilAny" by auto
    with w show ?thesis by (simp add: UnmarshalJSON_def)
  qed
  show ?thesis
  proof (cases rule: Unmarshal_cases [of ut b])
    case (1 err)
    then show ?thesis by (simp add: UnmarshalJSON_fails)
  next
    case (2 w)
    with main show ?thesis by simp
  qed
qed

theorem missing_recipient_witness:
  "UnmarshalJSON noTime (Some zeroVerify)
       (Valid (JObject [(''id'', JString ''abc''), (''status'', JString ''sent'')]))
     = Inl (errorString ''recipient is unknown type <nil>'')
   \<and> UnmarshalJSON noTime (Some zeroVerify) (Valid (JObject [(''recipient'', JNull)]))
     = Inl (errorString ''recipient is unknown type <nil>'')
   \<and> UnmarshalJSON noTime (Some zeroVerify) (Valid JNull)
     = Inl (errorString ''recipient is unknown type <nil>'')"
proof -
  let ?b1 = "Valid (JObject [(''id'', JString ''abc''), (''status'', JString ''sent'')])"
  let ?b2 = "Valid (JObject [(''recipient'', JNull)])"
  have u1: "Unmarshal noTime ?b1 zeroWrapper =
      Inr (\<lparr>Alias = zeroVerify\<lparr>Verify.ID := ''abc'', Verify.Status := ''sent''\<rparr>,
            wrapper.Recipient = nilAny\<rparr> :: unit wrapper)"
    by (simp add: Unmarshal_def eval_fields zeroWrapper_def)
  have u2: "Unmarshal noTime ?b2 zeroWrapper = Inr (zeroWrapper :: unit wrapper)"
    by (simp add: Unmarshal_def eval_fields zeroWrapper_def)
  have u3: "Unmarshal noTime (Valid JNull) zeroWrapper = Inr (zeroWrapper :: unit wrapper)"
    by (simp add: Unmarshal_def)
  have r1: "recipientOf ?b1 = None \<or> recipientOf ?b1 = Some JNull"
    by (simp add: eval_fields)
  have r2: "recipientOf ?b2 = None \<or> recipientOf ?b2 = Some JNull"
    by (simp add: eval_fields)
  have r3: "recipientOf (Valid JNull) = None \<or> recipientOf (Valid JNull) = Some JNull"
    by simp
  from missing_recipient [OF r1, of noTime zeroVerify] u1
    missing_recipient [OF r2, of noTime zeroVerify] u2
    missing_recipient [OF r3, of noTime zeroVerify] u3
  show ?thesis by simp
qed

end
